theory Spec2Isabelle
  imports Complex_Main
begin

section \<open>Data model\<close>

text \<open>
  The program works on numpy arrays and pandas frames. Floating-point numbers are read
  as real numbers, integer labels and identifiers as \<open>int\<close>, indices as \<open>nat\<close>.
  A row of an N x 4 probability matrix is a 4-tuple, so the number of columns is part
  of the type.
\<close>

datatype error = IndexError | KeyError | ValueError

type_synonym proba_row = "real \<times> real \<times> real \<times> real"

fun col :: "nat \<Rightarrow> proba_row \<Rightarrow> real" where
  "col kp (p0, p1, p2, p3) =
     (if kp = 0 then p0 else if kp = 1 then p1 else if kp = 2 then p2 else p3)"

text \<open>
  One row of the feature table: the columns the post-processing reads. The value of
  column \<open>dist_to_prior_kp{kp}\<close> is \<open>dist_to_prior_kp s kp\<close>; whether the
  table has that column is a property of the table (\<open>has_dist_col\<close>).
\<close>

record sample =
  well_id :: int
  JX :: real
  dist_to_prior_kp :: "nat \<Rightarrow> real"

record features =
  rows :: "sample list"
  has_dist_col :: "nat \<Rightarrow> bool"

text \<open>A keypoint assignment is a Python dict from class to position.\<close>

type_synonym assignment = "nat \<rightharpoonup> nat"

section \<open>numpy helpers\<close>

definition mean :: "real list \<Rightarrow> real" where
  "mean xs = sum_list xs / real (length xs)"

text \<open>\<open>ndarray.std()\<close>: the population standard deviation (ddof = 0).\<close>

definition std :: "real list \<Rightarrow> real" where
  "std xs = sqrt (mean (map (\<lambda>x. (x - mean xs)\<^sup>2) xs))"

text \<open>\<open>xs[a:b]\<close> for \<open>0 \<le> a \<le> b\<close>; a slice never raises.\<close>

definition slice :: "nat \<Rightarrow> nat \<Rightarrow> 'a list \<Rightarrow> 'a list" where
  "slice a b xs = take (b - a) (drop a xs)"

fun succ_diffs :: "real list \<Rightarrow> real list" where
  "succ_diffs [] = []"
| "succ_diffs [x] = []"
| "succ_diffs (x # y # ys) = (y - x) # succ_diffs (y # ys)"

text \<open>\<open>np.diff(jx, prepend=jx[0])\<close>, for a non-empty \<open>jx\<close>.\<close>

definition np_diff_prepend :: "real list \<Rightarrow> real list" where
  "np_diff_prepend jx = succ_diffs (hd jx # jx)"

text \<open>
  \<open>np.argsort\<close>: the indices in ascending order of value. numpy leaves the order of
  equal values open for its default sort; the model takes the stable order.
\<close>

definition argsort :: "real list \<Rightarrow> nat list" where
  "argsort ps = sort_key (\<lambda>i. ps ! i) [0..<length ps]"

text \<open>\<open>xs[-k:]\<close>: the last \<open>k\<close> elements, all of them when there are fewer.\<close>

definition last_k :: "nat \<Rightarrow> 'a list \<Rightarrow> 'a list" where
  "last_k k xs = drop (length xs - k) xs"

section \<open>Candidate generation (first half of \<open>dp_post_process\<close>)\<close>

definition K :: nat where
  "K = 10"

definition phys_score :: "nat \<Rightarrow> nat \<Rightarrow> real list \<Rightarrow> real list \<Rightarrow> nat \<Rightarrow> real" where
  "phys_score kp n jx jx_diff idx =
     (if kp = 1 then
        (if int idx < int n - 10 then
           (let future_trend = mean (slice (idx + 1) (idx + 11) jx) - jx ! idx
            in if future_trend > 0.5 then 0.3 else 0)
         else 0)
      else if kp = 2 then
        (if idx \<ge> 10 \<and> int idx < int n - 10 then
           (let local_std = std (slice (idx - 10) (idx + 10) jx_diff)
            in if local_std < 0.2 then 0.3 else 0)
         else 0)
      else if kp = 3 then
        (if int idx < int n - 10 then
           (let future_trend = mean (slice (idx + 1) (idx + 11) jx) - jx ! idx
            in if future_trend < - 0.3 then 0.3 else 0)
         else 0)
      else 0)"

text \<open>\<open>prior_info\<close> is a dict or \<open>None\<close>; \<open>None\<close> and the empty dict are both falsy.\<close>

definition prior_score :: "(nat \<rightharpoonup> int) \<Rightarrow> nat \<Rightarrow> nat \<Rightarrow> real" where
  "prior_score prior_info kp idx =
     (case prior_info kp of
        None \<Rightarrow> 0
      | Some p \<Rightarrow>
          (let dist = \<bar>int idx - p\<bar>
           in if dist < 15 then 0.2 * (1 - real_of_int dist / 15) else 0))"

text \<open>
  The unsorted list \<open>candidates[kp]\<close> after the loop over \<open>top_k_indices\<close>, and the
  list after \<open>sort(key=lambda x: x[1], reverse=True)\<close>. Python's sort is stable, also
  with \<open>reverse=True\<close>: it is the stable ascending sort by the negated score.
\<close>

definition top_k_indices :: "nat \<Rightarrow> proba_row list \<Rightarrow> nat list" where
  "top_k_indices kp model_proba = last_k K (argsort (map (col kp) model_proba))"

definition raw_candidates ::
  "nat \<Rightarrow> sample list \<Rightarrow> proba_row list \<Rightarrow> (nat \<rightharpoonup> int) \<Rightarrow> (nat \<times> real) list" where
  "raw_candidates kp well_data model_proba prior_info =
     (let n = length well_data;
          jx = map JX well_data;
          jx_diff = np_diff_prepend jx;
          kp_proba = map (col kp) model_proba
      in map (\<lambda>idx. (idx, kp_proba ! idx + phys_score kp n jx jx_diff idx
                              + prior_score prior_info kp idx))
           (filter (\<lambda>idx. kp_proba ! idx > 0.1) (top_k_indices kp model_proba)))"

definition candidates ::
  "nat \<Rightarrow> sample list \<Rightarrow> proba_row list \<Rightarrow> (nat \<rightharpoonup> int) \<Rightarrow> (nat \<times> real) list" where
  "candidates kp well_data model_proba prior_info =
     sort_key (\<lambda>c. - snd c) (raw_candidates kp well_data model_proba prior_info)"

section \<open>The search (second half of \<open>dp_post_process\<close>)\<close>

record search_state =
  best_combo :: "assignment option"
  best_score :: real

definition init_state :: search_state where
  "init_state = \<lparr>best_combo = None, best_score = - 1\<rparr>"

text \<open>The body of the innermost loop; \<open>kp3\<close> ranges over the candidates and \<open>(None, 0)\<close>.\<close>

definition step3 ::
  "nat \<times> real \<Rightarrow> nat \<times> real \<Rightarrow> search_state \<Rightarrow> nat option \<times> real \<Rightarrow> search_state" where
  "step3 kp1 kp2 st kp3 =
     (case kp3 of (kp3_idx, kp3_score) \<Rightarrow>
        if (case kp3_idx of Some i \<Rightarrow> i < fst kp2 + 20 | None \<Rightarrow> False) then st
        else
          (let combo_score = snd kp1 + snd kp2 + (if kp3_idx \<noteq> None then kp3_score else 0)
           in if combo_score > best_score st then
                \<lparr>best_combo =
                   Some (case kp3_idx of
                           Some i \<Rightarrow> [1 \<mapsto> fst kp1, 2 \<mapsto> fst kp2, 3 \<mapsto> i]
                         | None \<Rightarrow> [1 \<mapsto> fst kp1, 2 \<mapsto> fst kp2]),
                 best_score = combo_score\<rparr>
              else st))"

definition step2 ::
  "(nat option \<times> real) list \<Rightarrow> nat \<times> real \<Rightarrow> search_state \<Rightarrow> nat \<times> real \<Rightarrow> search_state" where
  "step2 c3s kp1 st kp2 =
     (if fst kp2 < fst kp1 + 20 then st else foldl (step3 kp1 kp2) st c3s)"

definition step1 ::
  "(nat \<times> real) list \<Rightarrow> (nat option \<times> real) list \<Rightarrow> search_state \<Rightarrow> nat \<times> real
     \<Rightarrow> search_state" where
  "step1 c2s c3s st kp1 = foldl (step2 c3s kp1) st c2s"

definition search ::
  "(nat \<times> real) list \<Rightarrow> (nat \<times> real) list \<Rightarrow> (nat \<times> real) list \<Rightarrow> search_state" where
  "search c1 c2 c3 =
     foldl (step1 (take 5 c2) (map (\<lambda>c. (Some (fst c), snd c)) (take 5 c3) @ [(None, 0)]))
       init_state (take 5 c1)"

text \<open>The fallback: the first candidate of every class that has one.\<close>

definition fallback :: "(nat \<Rightarrow> (nat \<times> real) list) \<Rightarrow> assignment" where
  "fallback cands =
     foldl (\<lambda>m kp. case cands kp of [] \<Rightarrow> m | c # _ \<Rightarrow> m(kp \<mapsto> fst c)) Map.empty [1, 2, 3]"

text \<open>
  \<open>dp_post_process(well_data, model_proba, prior_info)\<close>. The only read that can
  raise is \<open>jx[0]\<close>, on an empty \<open>well_data\<close>.
\<close>

definition dp_post_process ::
  "sample list \<Rightarrow> proba_row list \<Rightarrow> (nat \<rightharpoonup> int) \<Rightarrow> error + assignment" where
  "dp_post_process well_data model_proba prior_info =
     (if well_data = [] then Inl IndexError
      else
        (let cands = (\<lambda>kp. candidates kp well_data model_proba prior_info);
             st = search (cands 1) (cands 2) (cands 3)
         in Inr (case best_combo st of
                   Some combo \<Rightarrow> combo
                 | None \<Rightarrow> fallback cands)))"

text \<open>The position a result gives to a class; \<open>None\<close> when absent or on an error.\<close>

definition position :: "error + assignment \<Rightarrow> nat \<Rightarrow> nat option" where
  "position r kp = (case r of Inl _ \<Rightarrow> None | Inr m \<Rightarrow> m kp)"

section \<open>\<open>advanced_post_process\<close>\<close>

text \<open>
  The weighted fusion \<open>final_proba += proba * weights[name]\<close>, over the items of a
  dict of matrices in their order. \<open>weights[name]\<close> raises \<open>KeyError\<close> for a missing
  name; the in-place addition raises \<open>ValueError\<close> unless the matrix has as many rows as
  \<open>final_proba\<close> or a single row, which numpy broadcasts.
\<close>

fun scale_row :: "real \<Rightarrow> proba_row \<Rightarrow> proba_row" where
  "scale_row w (p0, p1, p2, p3) = (p0 * w, p1 * w, p2 * w, p3 * w)"

fun add_row :: "proba_row \<Rightarrow> proba_row \<Rightarrow> proba_row" where
  "add_row (a0, a1, a2, a3) (b0, b1, b2, b3) = (a0 + b0, a1 + b1, a2 + b2, a3 + b3)"

definition add_weighted :: "proba_row list \<Rightarrow> proba_row list \<Rightarrow> real \<Rightarrow> error + proba_row list" where
  "add_weighted final_proba proba w =
     (if length proba = length final_proba then
        Inr (map2 add_row final_proba (map (scale_row w) proba))
      else if length proba = 1 then
        Inr (map (\<lambda>r. add_row r (scale_row w (hd proba))) final_proba)
      else Inl ValueError)"

fun fuse ::
  "(string \<rightharpoonup> real) \<Rightarrow> proba_row list \<Rightarrow> (string \<times> proba_row list) list
     \<Rightarrow> error + proba_row list" where
  "fuse weights final_proba [] = Inr final_proba"
| "fuse weights final_proba ((name, proba) # rest) =
     (case weights name of
        None \<Rightarrow> Inl KeyError
      | Some w \<Rightarrow>
          (case add_weighted final_proba proba w of
             Inl e \<Rightarrow> Inl e
           | Inr final_proba' \<Rightarrow> fuse weights final_proba' rest))"

definition fused_proba ::
  "nat \<Rightarrow> (string \<times> proba_row list) list \<Rightarrow> (string \<times> proba_row list) list
     \<Rightarrow> (string \<rightharpoonup> real) \<Rightarrow> error + proba_row list" where
  "fused_proba N tree_preds dl_preds weights =
     (case fuse weights (replicate N (0, 0, 0, 0)) tree_preds of
        Inl e \<Rightarrow> Inl e
      | Inr final_proba \<Rightarrow> fuse weights final_proba dl_preds)"

text \<open>\<open>Series.unique()\<close>: the distinct values in order of first appearance.\<close>

definition pd_unique :: "'a list \<Rightarrow> 'a list" where
  "pd_unique xs = rev (remdups (rev xs))"

text \<open>\<open>np.where(mask)[0]\<close> for \<open>mask = test_features['well_id'] == well_id\<close>.\<close>

definition group_indices :: "sample list \<Rightarrow> int \<Rightarrow> nat list" where
  "group_indices rs w = filter (\<lambda>i. well_id (rs ! i) = w) [0..<length rs]"

text \<open>\<open>ndarray.min()\<close> and \<open>ndarray.argmin()\<close> (the first index of the minimum).\<close>

definition np_min :: "real list \<Rightarrow> real" where
  "np_min ds = Min (set ds)"

definition argmin :: "real list \<Rightarrow> nat" where
  "argmin ds = length (takeWhile (\<lambda>d. d \<noteq> np_min ds) ds)"

text \<open>\<open>group[f'dist_to_prior_kp{kp}'].values\<close>.\<close>

definition dist_column :: "nat \<Rightarrow> sample list \<Rightarrow> real list" where
  "dist_column kp grp = map (\<lambda>s. dist_to_prior_kp s kp) grp"

text \<open>The dict \<open>prior_keypoints\<close> built for one group.\<close>

definition prior_keypoints :: "(nat \<Rightarrow> bool) \<Rightarrow> sample list \<Rightarrow> (nat \<rightharpoonup> int)" where
  "prior_keypoints has_col grp =
     foldl (\<lambda>m kp.
              if has_col kp then
                (let dists = dist_column kp grp
                 in if np_min dists < 900 then m(kp \<mapsto> int (argmin dists)) else m)
              else m)
       Map.empty [1, 2, 3]"

text \<open>The decode of one well: the group, its rows of \<open>final_proba\<close>, its priors.\<close>

definition decode_well :: "features \<Rightarrow> proba_row list \<Rightarrow> int \<Rightarrow> error + assignment" where
  "decode_well test_features final_proba w =
     (let gi = group_indices (rows test_features) w;
          grp = map (\<lambda>i. rows test_features ! i) gi;
          group_proba = map (\<lambda>i. final_proba ! i) gi;
          prior = prior_keypoints (has_dist_col test_features) grp
      in dp_post_process grp group_proba prior)"

text \<open>
  The loop \<open>for kp, idx in best_combo.items()\<close>: the dict holds its keys in the order
  1, 2, 3 in which they were inserted.
\<close>

definition mark :: "nat list \<Rightarrow> assignment \<Rightarrow> int list \<Rightarrow> int list" where
  "mark gi combo final_predictions =
     foldl (\<lambda>preds kp.
              case combo kp of
                None \<Rightarrow> preds
              | Some idx \<Rightarrow> if idx < length gi then preds[gi ! idx := int kp] else preds)
       final_predictions [1, 2, 3]"

fun process_wells ::
  "features \<Rightarrow> proba_row list \<Rightarrow> int list \<Rightarrow> int list \<Rightarrow> error + int list" where
  "process_wells test_features final_proba final_predictions [] = Inr final_predictions"
| "process_wells test_features final_proba final_predictions (w # ws) =
     (case decode_well test_features final_proba w of
        Inl e \<Rightarrow> Inl e
      | Inr combo \<Rightarrow>
          process_wells test_features final_proba
            (mark (group_indices (rows test_features) w) combo final_predictions) ws)"

definition advanced_post_process ::
  "features \<Rightarrow> (string \<times> proba_row list) list \<Rightarrow> (string \<times> proba_row list) list
     \<Rightarrow> (string \<rightharpoonup> real) \<Rightarrow> error + int list" where
  "advanced_post_process test_features tree_preds dl_preds weights =
     (let N = length (rows test_features)
      in case fused_proba N tree_preds dl_preds weights of
           Inl e \<Rightarrow> Inl e
         | Inr final_proba \<Rightarrow>
             process_wells test_features final_proba (replicate N 0)
               (pd_unique (map well_id (rows test_features))))"

section \<open>\<open>macro_f1_with_tolerance\<close>\<close>

text \<open>
  The metric copies two of its arguments and writes into one of the copies. To say which
  arrays a write can reach, arrays live in a store: a list of arrays, an array's address
  being its index. \<open>ndarray.copy()\<close> allocates a new array at the end of the store.
\<close>

type_synonym store = "int list list"

definition np_copy :: "store \<Rightarrow> nat \<Rightarrow> store \<times> nat" where
  "np_copy h a = (h @ [h ! a], length h)"

text \<open>\<open>arr[i] = v\<close> on the array at address \<open>a\<close>.\<close>

definition array_set :: "store \<Rightarrow> nat \<Rightarrow> nat \<Rightarrow> int \<Rightarrow> store" where
  "array_set h a i v = h[a := (h ! a)[i := v]]"

text \<open>\<open>np.unique\<close>: the sorted distinct values.\<close>

definition np_unique :: "int list \<Rightarrow> int list" where
  "np_unique xs = sort (remdups xs)"

text \<open>\<open>np.where(well_ids == well_id)[0]\<close>.\<close>

definition where_eq :: "int list \<Rightarrow> int \<Rightarrow> nat list" where
  "where_eq ids w = filter (\<lambda>i. ids ! i = w) [0..<length ids]"

text \<open>
  \<open>kp_indices = indices[labels == kp]\<close> and the dict entry \<open>kp_indices[0]\<close>, made
  when \<open>kp_indices\<close> is not empty.
\<close>

definition first_kp :: "nat list \<Rightarrow> int list \<Rightarrow> int \<Rightarrow> nat option" where
  "first_kp indices labels kp =
     (case map fst (filter (\<lambda>(i, l). l = kp) (zip indices labels)) of
        [] \<Rightarrow> None
      | i # _ \<Rightarrow> Some i)"

text \<open>
  One round of the loop that applies the tolerance. The two \<open>np.where\<close> lookups of the
  source (\<open>local_pred_idx\<close>, \<open>local_true_idx\<close>) are never used and cannot raise, both
  positions being elements of \<open>indices\<close>.
\<close>

definition forgive ::
  "int \<Rightarrow> int \<Rightarrow> (int \<Rightarrow> nat option) \<Rightarrow> (int \<Rightarrow> nat option) \<Rightarrow> nat \<Rightarrow> store \<Rightarrow> int \<Rightarrow> store" where
  "forgive tolerance_first tolerance_rest true_keypoints pred_keypoints y_pred_adjusted h kp =
     (case true_keypoints kp of
        None \<Rightarrow> h
      | Some true_pos \<Rightarrow>
          (case pred_keypoints kp of
             None \<Rightarrow> h
           | Some pred_pos \<Rightarrow>
               (let tolerance = (if kp = 1 then tolerance_first else tolerance_rest)
                in if \<bar>int true_pos - int pred_pos\<bar> \<le> tolerance then
                     array_set (array_set h y_pred_adjusted pred_pos 0) y_pred_adjusted true_pos kp
                   else h)))"

text \<open>
  The body of the loop over the wells. The boolean mask has the length of \<open>well_ids\<close>;
  indexing \<open>y_true\<close> or \<open>y_pred\<close> with it raises \<open>IndexError\<close> when the lengths differ.
\<close>

definition well_step ::
  "nat \<Rightarrow> nat \<Rightarrow> nat \<Rightarrow> nat \<Rightarrow> int \<Rightarrow> int \<Rightarrow> store \<Rightarrow> int \<Rightarrow> error + store" where
  "well_step y_true y_pred well_ids y_pred_adjusted tolerance_first tolerance_rest h w =
     (let indices = where_eq (h ! well_ids) w
      in if length (h ! y_true) \<noteq> length (h ! well_ids) \<or>
            length (h ! y_pred) \<noteq> length (h ! well_ids) then Inl IndexError
         else
           (let true_labels = map (\<lambda>i. (h ! y_true) ! i) indices;
                pred_labels = map (\<lambda>i. (h ! y_pred) ! i) indices;
                true_keypoints = first_kp indices true_labels;
                pred_keypoints = first_kp indices pred_labels
            in Inr (foldl (forgive tolerance_first tolerance_rest true_keypoints pred_keypoints
                             y_pred_adjusted) h [1, 2, 3])))"

fun well_loop ::
  "nat \<Rightarrow> nat \<Rightarrow> nat \<Rightarrow> nat \<Rightarrow> int \<Rightarrow> int \<Rightarrow> store \<Rightarrow> int list \<Rightarrow> error + store" where
  "well_loop y_true y_pred well_ids y_pred_adjusted tolerance_first tolerance_rest h [] = Inr h"
| "well_loop y_true y_pred well_ids y_pred_adjusted tolerance_first tolerance_rest h (w # ws) =
     (case well_step y_true y_pred well_ids y_pred_adjusted tolerance_first tolerance_rest h w of
        Inl e \<Rightarrow> Inl e
      | Inr h' \<Rightarrow>
          well_loop y_true y_pred well_ids y_pred_adjusted tolerance_first tolerance_rest h' ws)"

text \<open>
  Everything before the last line of \<open>macro_f1_with_tolerance\<close>: the final store and the
  addresses of the two adjusted arrays.
\<close>

record adjusted =
  final_store :: store
  y_true_adjusted :: nat
  y_pred_adjusted :: nat

definition tolerance_adjust ::
  "store \<Rightarrow> nat \<Rightarrow> nat \<Rightarrow> nat \<Rightarrow> int \<Rightarrow> int \<Rightarrow> error + adjusted" where
  "tolerance_adjust h y_true y_pred well_ids tolerance_first tolerance_rest =
     (case np_copy h y_true of (h1, ta) \<Rightarrow>
      case np_copy h1 y_pred of (h2, pa) \<Rightarrow>
      case well_loop y_true y_pred well_ids pa tolerance_first tolerance_rest h2
             (np_unique (h2 ! well_ids)) of
        Inl e \<Rightarrow> Inl e
      | Inr h3 \<Rightarrow> Inr \<lparr>final_store = h3, y_true_adjusted = ta, y_pred_adjusted = pa\<rparr>)"

text \<open>
  \<open>sklearn.metrics.f1_score(y_true, y_pred, average='macro', zero_division=0)\<close>, after
  the library's documentation: the labels are the sorted distinct values that occur in
  \<open>y_true\<close> or \<open>y_pred\<close>; precision, recall and F1 are computed per label, a division by
  zero giving 0; the result is the unweighted mean over the labels. Arrays of different
  lengths raise \<open>ValueError\<close>, and so do empty arrays.
\<close>

definition zero_division :: "real \<Rightarrow> real \<Rightarrow> real" where
  "zero_division a b = (if b = 0 then 0 else a / b)"

definition count_pairs :: "(int \<times> int \<Rightarrow> bool) \<Rightarrow> int list \<Rightarrow> int list \<Rightarrow> nat" where
  "count_pairs P yt yp = length (filter P (zip yt yp))"

definition f1_class :: "int list \<Rightarrow> int list \<Rightarrow> int \<Rightarrow> real" where
  "f1_class yt yp c =
     (let tp = real (count_pairs (\<lambda>(t, p). t = c \<and> p = c) yt yp);
          fp = real (count_pairs (\<lambda>(t, p). t \<noteq> c \<and> p = c) yt yp);
          fn = real (count_pairs (\<lambda>(t, p). t = c \<and> p \<noteq> c) yt yp);
          precision = zero_division tp (tp + fp);
          recall = zero_division tp (tp + fn)
      in zero_division (2 * precision * recall) (precision + recall))"

definition unique_labels :: "int list \<Rightarrow> int list \<Rightarrow> int list" where
  "unique_labels yt yp = sort (remdups (yt @ yp))"

definition f1_score :: "int list \<Rightarrow> int list \<Rightarrow> error + real" where
  "f1_score yt yp =
     (if length yt \<noteq> length yp then Inl ValueError
      else if yt = [] then Inl ValueError
      else Inr (mean (map (f1_class yt yp) (unique_labels yt yp))))"

definition macro_f1_with_tolerance ::
  "store \<Rightarrow> nat \<Rightarrow> nat \<Rightarrow> nat \<Rightarrow> int \<Rightarrow> int \<Rightarrow> error + real" where
  "macro_f1_with_tolerance h y_true y_pred well_ids tolerance_first tolerance_rest =
     (case tolerance_adjust h y_true y_pred well_ids tolerance_first tolerance_rest of
        Inl e \<Rightarrow> Inl e
      | Inr r \<Rightarrow>
          f1_score (final_store r ! y_true_adjusted r) (final_store r ! y_pred_adjusted r))"

section \<open>Auxiliary notions for the proofs\<close>

text \<open>The ordering and spacing constraints on an assignment.\<close>

definition spaced :: "assignment \<Rightarrow> bool" where
  "spaced m \<longleftrightarrow>
     (\<exists>p1 p2. m 1 = Some p1 \<and> m 2 = Some p2 \<and> p1 + 20 \<le> p2 \<and>
        (\<forall>p3. m 3 = Some p3 \<longrightarrow> p2 + 20 \<le> p3))"

text \<open>The invariant of the three nested loops, and "a combination has been recorded".\<close>

definition search_inv :: "search_state \<Rightarrow> bool" where
  "search_inv st \<longleftrightarrow>
     (best_combo st = None \<longrightarrow> best_score st = - 1) \<and>
     (\<forall>m. best_combo st = Some m \<longrightarrow> spaced m)"

definition found :: "search_state \<Rightarrow> bool" where
  "found st \<longleftrightarrow> best_combo st \<noteq> None"

text \<open>Example inputs: a well of constant angle, and probability spikes of 0.9.\<close>

definition flat_well :: "nat \<Rightarrow> sample list" where
  "flat_well n = replicate n \<lparr>well_id = 0, JX = 0, dist_to_prior_kp = (\<lambda>_. 999)\<rparr>"

definition spike :: "nat \<Rightarrow> nat \<Rightarrow> nat \<Rightarrow> proba_row" where
  "spike a b i =
     (if i = a then (0, 0.9, 0, 0) else if i = b then (0, 0, 0.9, 0) else (1, 0, 0, 0))"

definition two_spikes :: "nat \<Rightarrow> nat \<Rightarrow> nat \<Rightarrow> proba_row list" where
  "two_spikes n a b = map (spike a b) [0..<n]"

definition no_prior :: "nat \<rightharpoonup> int" where
  "no_prior = Map.empty"

text \<open>
  More example inputs: one spike of probability \<open>p\<close> for class \<open>kp\<close> at position
  \<open>pos\<close>; a well whose angle steps from 0 to 1 after the first sample; class-1
  probabilities 0.5 and 0.4 at the two ends of a sequence of 11 samples; a class-1 column
  with 0.5 at position 0 and 0.3 at position 15, and a prior at position 15.
\<close>

definition spike_at :: "nat \<Rightarrow> real \<Rightarrow> nat \<Rightarrow> nat \<Rightarrow> proba_row list" where
  "spike_at kp p pos n =
     map (\<lambda>i. if i = pos then (if kp = 1 then (0, p, 0, 0) else if kp = 2 then (0, 0, p, 0)
                                else (0, 0, 0, p))
               else (1, 0, 0, 0)) [0..<n]"

definition rising_well :: "sample list" where
  "rising_well =
     \<lparr>well_id = 0, JX = 0, dist_to_prior_kp = (\<lambda>_. 999)\<rparr> #
     replicate 10 \<lparr>well_id = 0, JX = 1, dist_to_prior_kp = (\<lambda>_. 999)\<rparr>"

definition boundary_proba :: "proba_row list" where
  "boundary_proba =
     map (\<lambda>i. if i = 0 then (0, 0.5, 0, 0) else if i = 10 then (0, 0.4, 0, 0)
               else (1, 0, 0, 0)) [0..<11]"

definition tie_proba :: "proba_row list" where
  "tie_proba =
     map (\<lambda>i. if i = 0 then (0, 0.5, 0, 0) else if i = 15 then (0, 0.3, 0, 0)
               else (1, 0, 0, 0)) [0..<16]"

definition prior_at_15 :: "nat \<rightharpoonup> int" where
  "prior_at_15 = [1 \<mapsto> 15]"

text \<open>
  Example groups: one sample at distance 950 from its prior, and two samples at distances
  3 and 0; a table that has all three distance columns.
\<close>

definition far_group :: "sample list" where
  "far_group = [\<lparr>well_id = 0, JX = 0, dist_to_prior_kp = (\<lambda>_. 950)\<rparr>]"

definition near_group :: "sample list" where
  "near_group =
     [\<lparr>well_id = 0, JX = 0, dist_to_prior_kp = (\<lambda>_. 3)\<rparr>,
      \<lparr>well_id = 0, JX = 0, dist_to_prior_kp = (\<lambda>_. 0)\<rparr>]"

definition all_cols :: "nat \<Rightarrow> bool" where
  "all_cols kp = True"

text \<open>
  The invariant of the loop over the wells: the vector has one entry per sample, and a
  nonzero entry at a global index is the class for which the decode of that sample's own
  well selected it.
\<close>

definition selected :: "features \<Rightarrow> proba_row list \<Rightarrow> nat \<Rightarrow> int \<Rightarrow> bool" where
  "selected test_features final_proba g v \<longleftrightarrow>
     (\<exists>kp idx combo.
        (kp = 1 \<or> kp = 2 \<or> kp = 3) \<and> v = int kp \<and>
        decode_well test_features final_proba (well_id (rows test_features ! g)) = Inr combo \<and>
        combo kp = Some idx \<and>
        idx < length (group_indices (rows test_features) (well_id (rows test_features ! g))) \<and>
        group_indices (rows test_features) (well_id (rows test_features ! g)) ! idx = g)"

definition labels_inv :: "features \<Rightarrow> proba_row list \<Rightarrow> int list \<Rightarrow> bool" where
  "labels_inv test_features final_proba preds \<longleftrightarrow>
     length preds = length (rows test_features) \<and>
     (\<forall>g < length (rows test_features).
        preds ! g \<noteq> 0 \<longrightarrow> selected test_features final_proba g (preds ! g))"

text \<open>
  What the loop over the wells must produce at a global index: class \<open>kp\<close> is written
  there when the decode of the sample's own well gives \<open>kp\<close> a local position that
  lies in the group and maps to this index. The classes are written in the order 1, 2, 3,
  so the highest class that writes an index stays.
\<close>

definition hits :: "nat list \<Rightarrow> assignment \<Rightarrow> nat \<Rightarrow> nat \<Rightarrow> bool" where
  "hits gi combo g kp =
     (case combo kp of None \<Rightarrow> False | Some idx \<Rightarrow> idx < length gi \<and> gi ! idx = g)"

definition writes :: "features \<Rightarrow> proba_row list \<Rightarrow> nat \<Rightarrow> nat \<Rightarrow> bool" where
  "writes test_features final_proba g kp =
     (case decode_well test_features final_proba (well_id (rows test_features ! g)) of
        Inl _ \<Rightarrow> False
      | Inr combo \<Rightarrow>
          hits (group_indices (rows test_features) (well_id (rows test_features ! g))) combo g kp)"

definition expected_label :: "features \<Rightarrow> proba_row list \<Rightarrow> nat \<Rightarrow> int" where
  "expected_label test_features final_proba g =
     (if writes test_features final_proba g 3 then 3
      else if writes test_features final_proba g 2 then 2
      else if writes test_features final_proba g 1 then 1
      else 0)"

text \<open>
  The exact invariant of the loop: the samples of the wells handled so far carry their
  expected labels, all other samples still 0.
\<close>

definition labelled_upto :: "features \<Rightarrow> proba_row list \<Rightarrow> int set \<Rightarrow> int list \<Rightarrow> bool" where
  "labelled_upto test_features final_proba D preds \<longleftrightarrow>
     length preds = length (rows test_features) \<and>
     (\<forall>g < length (rows test_features).
        preds ! g = (if well_id (rows test_features ! g) \<in> D
                     then expected_label test_features final_proba g else 0))"

text \<open>An example batch: two wells of two samples each, and one probability source.\<close>

definition two_wells :: features where
  "two_wells =
     \<lparr>rows = [\<lparr>well_id = 7, JX = 0, dist_to_prior_kp = (\<lambda>_. 999)\<rparr>,
              \<lparr>well_id = 7, JX = 0, dist_to_prior_kp = (\<lambda>_. 999)\<rparr>,
              \<lparr>well_id = 8, JX = 0, dist_to_prior_kp = (\<lambda>_. 999)\<rparr>,
              \<lparr>well_id = 8, JX = 0, dist_to_prior_kp = (\<lambda>_. 999)\<rparr>],
      has_dist_col = all_cols\<rparr>"

definition one_source :: "(string \<times> proba_row list) list" where
  "one_source = [(''lgb'', [(0.1, 0.9, 0, 0), (1, 0, 0, 0), (1, 0, 0, 0), (0.1, 0, 0.9, 0)])]"

definition unit_weights :: "string \<rightharpoonup> real" where
  "unit_weights = [''lgb'' \<mapsto> 1]"

text \<open>
  What a run of the tolerance loop may change: only the array at one address, and not its
  length.
\<close>

definition same_except :: "nat \<Rightarrow> store \<Rightarrow> store \<Rightarrow> bool" where
  "same_except pa h h' \<longleftrightarrow>
     length h' = length h \<and> length (h' ! pa) = length (h ! pa) \<and>
     (\<forall>a. a \<noteq> pa \<longrightarrow> h' ! a = h ! a)"

text \<open>The adjusted arrays of a result; empty on an error.\<close>

definition adjusted_true :: "error + adjusted \<Rightarrow> int list" where
  "adjusted_true res = (case res of Inl _ \<Rightarrow> [] | Inr r \<Rightarrow> final_store r ! y_true_adjusted r)"

definition adjusted_pred :: "error + adjusted \<Rightarrow> int list" where
  "adjusted_pred res = (case res of Inl _ \<Rightarrow> [] | Inr r \<Rightarrow> final_store r ! y_pred_adjusted r)"

text \<open>
  The macro average as the specification words it: over the four classes 0 to 3, a class
  that does not occur counting with its F1 of 0.
\<close>

definition spec_macro_f1_four_classes :: "int list \<Rightarrow> int list \<Rightarrow> real" where
  "spec_macro_f1_four_classes yt yp =
     (f1_class yt yp 0 + f1_class yt yp 1 + f1_class yt yp 2 + f1_class yt yp 3) / 4"

text \<open>
  Example stores, holding \<open>y_true\<close>, \<open>y_pred\<close> and \<open>well_ids\<close> at the addresses 0, 1
  and 2: an exact match with the classes 0 and 1 only, and a prediction of class 1 one
  sample early.
\<close>

definition exact_store :: store where
  "exact_store = [[0, 1], [0, 1], [5, 5]]"

definition near_store :: store where
  "near_store = [[0, 1, 0, 2], [1, 0, 0, 2], [5, 5, 5, 5]]"

text \<open>
  Two more example stores: an exact match with all three keypoint classes placed, and a
  prediction of class 1 two samples late, outside the tolerance.
\<close>

definition placed_store :: store where
  "placed_store = [[0, 1, 0, 2, 3], [0, 1, 0, 2, 3], [5, 5, 5, 5, 5]]"

definition miss_store :: store where
  "miss_store = [[0, 1, 0, 0], [0, 0, 0, 1], [5, 5, 5, 5]]"

section \<open>Properties of the search\<close>

lemma search_inv_init: "search_inv init_state"
  by (simp add: search_inv_def init_state_def)

lemma step3_inv:
  assumes "fst kp1 + 20 \<le> fst kp2" and "search_inv st"
  shows "search_inv (step3 kp1 kp2 st kp3)"
  using assms
  by (cases kp3) (auto simp: step3_def search_inv_def spaced_def Let_def split: option.splits)

lemma step3_found: "found st \<Longrightarrow> found (step3 kp1 kp2 st kp3)"
  by (cases kp3) (auto simp: found_def step3_def Let_def split: option.splits)

lemma step3_absent_found:
  assumes "search_inv st" and "- 1 < snd kp1 + snd kp2"
  shows "found (step3 kp1 kp2 st (None, 0))"
  using assms by (auto simp: found_def step3_def search_inv_def Let_def)

lemma foldl_inv:
  assumes "\<And>s x. P s \<Longrightarrow> P (f s x)" and "P s"
  shows "P (foldl f s xs)"
  using assms(2) by (induction xs arbitrary: s) (auto intro: assms(1))

lemma foldl_reaches:
  assumes inv: "\<And>s x. P s \<Longrightarrow> P (f s x)"
    and keep: "\<And>s x. Q s \<Longrightarrow> Q (f s x)"
    and hit: "\<And>s. P s \<Longrightarrow> Q (f s c)"
    and "c \<in> set xs" and "P s"
  shows "Q (foldl f s xs)"
  using assms(4,5)
proof (induction xs arbitrary: s)
  case Nil
  then show ?case by simp
next
  case (Cons x xs)
  show ?case
  proof (cases "x = c")
    case True
    with Cons.prems have "Q (f s x)" by (simp add: hit)
    then have "Q (foldl f (f s x) xs)" by (rule foldl_inv [rotated]) (rule keep)
    then show ?thesis by simp
  next
    case False
    with Cons.prems have "c \<in> set xs" by simp
    moreover from Cons.prems have "P (f s x)" by (simp add: inv)
    ultimately show ?thesis using Cons.IH by simp
  qed
qed

lemma step2_inv:
  assumes "search_inv st"
  shows "search_inv (step2 c3s kp1 st kp2)"
proof (cases "fst kp2 < fst kp1 + 20")
  case True
  with assms show ?thesis by (simp add: step2_def)
next
  case False
  then have le: "fst kp1 + 20 \<le> fst kp2" by simp
  have "search_inv (foldl (step3 kp1 kp2) st c3s)"
    by (rule foldl_inv [where P = search_inv]) (rule step3_inv [OF le], assumption, rule assms)
  with False show ?thesis by (simp add: step2_def)
qed

lemma step2_found:
  assumes "found st"
  shows "found (step2 c3s kp1 st kp2)"
proof -
  have "found (foldl (step3 kp1 kp2) st c3s)"
    by (rule foldl_inv [where P = found]) (rule step3_found, assumption, rule assms)
  with assms show ?thesis by (simp add: step2_def)
qed

lemma step2_hit:
  assumes "search_inv st" and "fst kp1 + 20 \<le> fst kp2" and "- 1 < snd kp1 + snd kp2"
    and "(None, 0) \<in> set c3s"
  shows "found (step2 c3s kp1 st kp2)"
proof -
  have "found (foldl (step3 kp1 kp2) st c3s)"
  proof (rule foldl_reaches [where P = search_inv and c = "(None, 0)"])
    show "search_inv (step3 kp1 kp2 s x)" if "search_inv s" for s x
      using assms(2) that by (rule step3_inv)
    show "found (step3 kp1 kp2 s x)" if "found s" for s x
      using that by (rule step3_found)
    show "found (step3 kp1 kp2 s (None, 0))" if "search_inv s" for s
      using that assms(3) by (rule step3_absent_found)
    show "(None, 0) \<in> set c3s" by (rule assms(4))
    show "search_inv st" by (rule assms(1))
  qed
  with assms(2) show ?thesis by (simp add: step2_def)
qed

lemma step1_inv: "search_inv st \<Longrightarrow> search_inv (step1 c2s c3s st kp1)"
  unfolding step1_def by (rule foldl_inv [where P = search_inv]) (rule step2_inv)

lemma step1_found: "found st \<Longrightarrow> found (step1 c2s c3s st kp1)"
  unfolding step1_def by (rule foldl_inv [where P = found]) (rule step2_found)

lemma step1_hit:
  assumes "search_inv st" and "kp2 \<in> set c2s" and "fst kp1 + 20 \<le> fst kp2"
    and "- 1 < snd kp1 + snd kp2" and "(None, 0) \<in> set c3s"
  shows "found (step1 c2s c3s st kp1)"
  unfolding step1_def
proof (rule foldl_reaches [where P = search_inv and c = kp2])
  show "found (step2 c3s kp1 s kp2)" if "search_inv s" for s
    using that assms(3,4,5) by (rule step2_hit)
  show "search_inv (step2 c3s kp1 s x)" if "search_inv s" for s x
    using that by (rule step2_inv)
  show "found (step2 c3s kp1 s x)" if "found s" for s x
    using that by (rule step2_found)
  show "kp2 \<in> set c2s" by (rule assms(2))
  show "search_inv st" by (rule assms(1))
qed

lemma search_inv_search: "search_inv (search c1 c2 c3)"
  unfolding search_def
  by (rule foldl_inv [where P = search_inv]) (rule step1_inv, assumption, rule search_inv_init)

lemma search_finds:
  assumes "kp1 \<in> set (take 5 c1)" and "kp2 \<in> set (take 5 c2)"
    and "fst kp1 + 20 \<le> fst kp2" and "- 1 < snd kp1 + snd kp2"
  shows "found (search c1 c2 c3)"
  unfolding search_def
proof (rule foldl_reaches [where P = search_inv and c = kp1])
  show "found (step1 (take 5 c2) (map (\<lambda>c. (Some (fst c), snd c)) (take 5 c3) @ [(None, 0)]) s kp1)"
    if "search_inv s" for s
    using that assms(2,3,4) by (rule step1_hit) simp
  show "search_inv (step1 c2s c3s s x)" if "search_inv s" for s x c2s c3s
    using that by (rule step1_inv)
  show "found (step1 c2s c3s s x)" if "found s" for s x c2s c3s
    using that by (rule step1_found)
  show "kp1 \<in> set (take 5 c1)" by (rule assms(1))
  show "search_inv init_state" by (rule search_inv_init)
qed

lemma phys_score_nonneg: "0 \<le> phys_score kp n jx jx_diff idx"
  by (simp add: phys_score_def Let_def)

lemma prior_score_nonneg: "0 \<le> prior_score prior_info kp idx"
  by (auto simp: prior_score_def Let_def split: option.splits)

lemma raw_candidates_score:
  assumes "c \<in> set (raw_candidates kp wd mp pr)"
  shows "0.1 < snd c"
proof -
  from assms obtain idx p where c: "snd c = p + phys_score kp (length wd) (map JX wd)
      (np_diff_prepend (map JX wd)) idx + prior_score pr kp idx" and p: "0.1 < p"
    unfolding raw_candidates_def Let_def by auto
  have "0 \<le> phys_score kp (length wd) (map JX wd) (np_diff_prepend (map JX wd)) idx"
    by (rule phys_score_nonneg)
  moreover have "0 \<le> prior_score pr kp idx" by (rule prior_score_nonneg)
  ultimately show ?thesis using c p by linarith
qed

lemma candidates_score:
  assumes "c \<in> set (candidates kp wd mp pr)"
  shows "0.1 < snd c"
proof -
  from assms have "c \<in> set (raw_candidates kp wd mp pr)" by (simp add: candidates_def)
  then show ?thesis by (rule raw_candidates_score)
qed


section \<open>Evaluating the trend criterion\<close>

lemma sqrt_less_fifth: "sqrt v < 0.2 \<longleftrightarrow> v < 0.04"
proof -
  have sq: "(0.2::real)\<^sup>2 = 0.04" by (simp add: power2_eq_square)
  have "sqrt (0.04::real) = 0.2" by (rule real_sqrt_unique [OF sq]) simp
  then have "sqrt v < 0.2 \<longleftrightarrow> sqrt v < sqrt 0.04" by (simp only:)
  also have "\<dots> \<longleftrightarrow> v < 0.04" by (rule real_sqrt_less_iff)
  finally show ?thesis .
qed

lemma std_less_iff: "std xs < 0.2 \<longleftrightarrow> mean (map (\<lambda>x. (x - mean xs)\<^sup>2) xs) < 0.04"
  unfolding std_def by (rule sqrt_less_fifth)

lemma phys_score_code [code]:
  "phys_score kp n jx jx_diff idx =
     (if kp = 1 then
        (if int idx < int n - 10 then
           (let future_trend = mean (slice (idx + 1) (idx + 11) jx) - jx ! idx
            in if future_trend > 0.5 then 0.3 else 0)
         else 0)
      else if kp = 2 then
        (if idx \<ge> 10 \<and> int idx < int n - 10 then
           (let ys = slice (idx - 10) (idx + 10) jx_diff
            in if mean (map (\<lambda>x. (x - mean ys)\<^sup>2) ys) < 0.04 then 0.3 else 0)
         else 0)
      else if kp = 3 then
        (if int idx < int n - 10 then
           (let future_trend = mean (slice (idx + 1) (idx + 11) jx) - jx ! idx
            in if future_trend < - 0.3 then 0.3 else 0)
         else 0)
      else 0)"
  unfolding phys_score_def Let_def std_less_iff by (rule refl)

section \<open>Claims about the decoder\<close>

text \<open>
  C1 (amended). Whenever the first five candidates of class 1 and of class 2 contain an
  admissible pair, that is a class-1 candidate and a class-2 candidate with
  position(1) + 20 \<le> position(2), the assignment returned by \<open>dp_post_process\<close> holds
  classes 1 and 2 with position(1) + 20 \<le> position(2), and if class 3 is present,
  position(2) + 20 \<le> position(3). A result of the fallback carries no such guarantee.
\<close>

theorem dp_spacing_when_admissible:
  assumes "well_data \<noteq> []"
    and "kp1 \<in> set (take 5 (candidates 1 well_data model_proba prior_info))"
    and "kp2 \<in> set (take 5 (candidates 2 well_data model_proba prior_info))"
    and "fst kp1 + 20 \<le> fst kp2"
  shows "\<exists>p1 p2. position (dp_post_process well_data model_proba prior_info) 1 = Some p1 \<and>
           position (dp_post_process well_data model_proba prior_info) 2 = Some p2 \<and>
           p1 + 20 \<le> p2 \<and>
           (\<forall>p3. position (dp_post_process well_data model_proba prior_info) 3 = Some p3
              \<longrightarrow> p2 + 20 \<le> p3)"
proof -
  let ?c = "\<lambda>kp. candidates kp well_data model_proba prior_info"
  let ?st = "search (?c 1) (?c 2) (?c 3)"
  from assms(2) have "0.1 < snd kp1" by (auto dest!: in_set_takeD candidates_score)
  moreover from assms(3) have "0.1 < snd kp2" by (auto dest!: in_set_takeD candidates_score)
  ultimately have "- 1 < snd kp1 + snd kp2" by simp
  with assms(2,3,4) have "found ?st" by (rule search_finds)
  then obtain m where m: "best_combo ?st = Some m" by (auto simp: found_def)
  with search_inv_search [of "?c 1" "?c 2" "?c 3"] have "spaced m"
    by (simp add: search_inv_def)
  moreover from assms(1) m
  have "position (dp_post_process well_data model_proba prior_info) kp = m kp" for kp
    by (simp add: position_def dp_post_process_def Let_def)
  ultimately show ?thesis by (simp add: spaced_def)
qed

theorem dp_spacing_when_admissible_witness:
  "flat_well 21 \<noteq> [] \<and>
   (0, 0.9) \<in> set (take 5 (candidates 1 (flat_well 21) (two_spikes 21 0 20) no_prior)) \<and>
   (20, 0.9) \<in> set (take 5 (candidates 2 (flat_well 21) (two_spikes 21 0 20) no_prior)) \<and>
   (\<exists>p1 p2. position (dp_post_process (flat_well 21) (two_spikes 21 0 20) no_prior) 1 = Some p1 \<and>
      position (dp_post_process (flat_well 21) (two_spikes 21 0 20) no_prior) 2 = Some p2 \<and>
      p1 + 20 \<le> p2)"
proof -
  have h1: "flat_well 21 \<noteq> []" by code_simp
  have h2: "((0::nat), 0.9::real) \<in> set (take 5 (candidates 1 (flat_well 21) (two_spikes 21 0 20) no_prior))"
    by code_simp
  have h3: "((20::nat), 0.9::real) \<in> set (take 5 (candidates 2 (flat_well 21) (two_spikes 21 0 20) no_prior))"
    by code_simp
  have h4: "fst ((0::nat), 0.9::real) + 20 \<le> fst ((20::nat), 0.9::real)" by simp
  from dp_spacing_when_admissible [OF h1 h2 h3 h4] h1 h2 h3 show ?thesis by blast
qed

text \<open>
  C1 as stated fails on the fallback: class 1 peaks at position 0 and class 2 at position
  1 of a well of two samples; no pair is admissible, and the result holds both classes,
  one sample apart.
\<close>

theorem dp_spacing_fallback_counterexample:
  "position (dp_post_process (flat_well 2) (two_spikes 2 0 1) no_prior) 1 = Some 0 \<and>
   position (dp_post_process (flat_well 2) (two_spikes 2 0 1) no_prior) 2 = Some 1 \<and>
   \<not> the (position (dp_post_process (flat_well 2) (two_spikes 2 0 1) no_prior) 1) + 20
       \<le> the (position (dp_post_process (flat_well 2) (two_spikes 2 0 1) no_prior) 2)"
proof -
  have p1: "position (dp_post_process (flat_well 2) (two_spikes 2 0 1) no_prior) 1 = Some 0"
    by code_simp
  have p2: "position (dp_post_process (flat_well 2) (two_spikes 2 0 1) no_prior) 2 = Some 1"
    by code_simp
  show ?thesis unfolding p1 p2 by simp
qed

section \<open>The fallback\<close>

lemma foldl_unchanged:
  assumes "\<And>x. x \<in> set xs \<Longrightarrow> f s x = s"
  shows "foldl f s xs = s"
  using assms by (induction xs) auto

lemma search_no_admissible:
  assumes "\<forall>kp1 \<in> set (take 5 c1). \<forall>kp2 \<in> set (take 5 c2). fst kp2 < fst kp1 + 20"
  shows "search c1 c2 c3 = init_state"
  unfolding search_def
proof (rule foldl_unchanged)
  fix kp1 assume kp1: "kp1 \<in> set (take 5 c1)"
  show "step1 (take 5 c2) (map (\<lambda>c. (Some (fst c), snd c)) (take 5 c3) @ [(None, 0)]) init_state kp1
      = init_state"
    unfolding step1_def
  proof (rule foldl_unchanged)
    fix kp2 assume "kp2 \<in> set (take 5 c2)"
    with kp1 assms have "fst kp2 < fst kp1 + 20" by blast
    then show "step2 (map (\<lambda>c. (Some (fst c), snd c)) (take 5 c3) @ [(None, 0)]) kp1 init_state kp2
      = init_state"
      by (simp add: step2_def)
  qed
qed

lemma fallback_apply:
  "fallback cands kp =
     (if kp = 1 \<or> kp = 2 \<or> kp = 3 then
        (case cands kp of [] \<Rightarrow> None | c # _ \<Rightarrow> Some (fst c))
      else None)"
  by (auto simp: fallback_def split: list.splits)

lemma candidates_head_max:
  assumes "candidates kp wd mp pr = c # cs" and "c' \<in> set cs"
  shows "snd c' \<le> snd c"
proof -
  have "sorted (map (\<lambda>c. - snd c) (candidates kp wd mp pr))"
    unfolding candidates_def by (rule sorted_sort_key)
  with assms show ?thesis by auto
qed

text \<open>
  C2. For a non-empty well whose first five class-1 and class-2 candidates contain no
  admissible pair (in particular when class 1 or class 2 has no candidate), no triple is
  admissible and \<open>dp_post_process\<close> returns without an error; every class with
  candidates gets the position of the head of its candidate list, whose score no other
  candidate of the class exceeds; a class without candidates is absent; and the result
  is not empty when some class has a candidate.
\<close>

theorem dp_fallback_best_per_class:
  assumes "well_data \<noteq> []"
    and "\<forall>kp1 \<in> set (take 5 (candidates 1 well_data model_proba prior_info)).
         \<forall>kp2 \<in> set (take 5 (candidates 2 well_data model_proba prior_info)).
           fst kp2 < fst kp1 + 20"
    and "kp = 1 \<or> kp = 2 \<or> kp = 3"
  shows "(\<exists>m. dp_post_process well_data model_proba prior_info = Inr m) \<and>
         (candidates kp well_data model_proba prior_info = [] \<longrightarrow>
            position (dp_post_process well_data model_proba prior_info) kp = None) \<and>
         (\<forall>c cs. candidates kp well_data model_proba prior_info = c # cs \<longrightarrow>
            position (dp_post_process well_data model_proba prior_info) kp = Some (fst c) \<and>
            (\<forall>c' \<in> set cs. snd c' \<le> snd c)) \<and>
         ((\<exists>k \<in> {1, 2, 3}. candidates k well_data model_proba prior_info \<noteq> []) \<longrightarrow>
            (\<exists>k \<in> {1, 2, 3}. position (dp_post_process well_data model_proba prior_info) k \<noteq> None))"
proof -
  let ?c = "\<lambda>kp. candidates kp well_data model_proba prior_info"
  let ?r = "dp_post_process well_data model_proba prior_info"
  from assms(2) have "search (?c 1) (?c 2) (?c 3) = init_state"
    by (rule search_no_admissible)
  with assms(1) have r: "?r = Inr (fallback ?c)"
    by (simp add: dp_post_process_def Let_def init_state_def)
  then have pos: "position ?r k = (case ?c k of [] \<Rightarrow> None | c # _ \<Rightarrow> Some (fst c))"
    if "k = 1 \<or> k = 2 \<or> k = 3" for k
    using that by (simp add: position_def fallback_apply)
  have "\<exists>m. ?r = Inr m" using r by simp
  moreover have "?c kp = [] \<longrightarrow> position ?r kp = None"
    using pos [OF assms(3)] by simp
  moreover have "\<forall>c cs. ?c kp = c # cs \<longrightarrow>
      position ?r kp = Some (fst c) \<and> (\<forall>c' \<in> set cs. snd c' \<le> snd c)"
    using pos [OF assms(3)] by (auto dest: candidates_head_max)
  moreover have "(\<exists>k \<in> {1, 2, 3}. ?c k \<noteq> []) \<longrightarrow> (\<exists>k \<in> {1, 2, 3}. position ?r k \<noteq> None)"
  proof
    assume "\<exists>k \<in> {1, 2, 3}. ?c k \<noteq> []"
    then obtain k where k: "k = 1 \<or> k = 2 \<or> k = 3" and ne: "?c k \<noteq> []" by auto
    from ne pos [OF k] have "position ?r k \<noteq> None" by (cases "?c k") auto
    with k show "\<exists>k \<in> {1, 2, 3}. position ?r k \<noteq> None" by auto
  qed
  ultimately show ?thesis by blast
qed

theorem dp_fallback_best_per_class_witness:
  "flat_well 2 \<noteq> [] \<and>
   candidates 1 (flat_well 2) (two_spikes 2 0 1) no_prior = [(0, 0.9)] \<and>
   candidates 2 (flat_well 2) (two_spikes 2 0 1) no_prior = [(1, 0.9)] \<and>
   position (dp_post_process (flat_well 2) (two_spikes 2 0 1) no_prior) 2 = Some 1"
proof -
  have h1: "flat_well 2 \<noteq> []" by code_simp
  have c1: "candidates 1 (flat_well 2) (two_spikes 2 0 1) no_prior = [(0, 0.9)]" by code_simp
  have c2: "candidates 2 (flat_well 2) (two_spikes 2 0 1) no_prior = [(1, 0.9)]" by code_simp
  have h2: "\<forall>kp1 \<in> set (take 5 (candidates 1 (flat_well 2) (two_spikes 2 0 1) no_prior)).
    \<forall>kp2 \<in> set (take 5 (candidates 2 (flat_well 2) (two_spikes 2 0 1) no_prior)).
      fst kp2 < fst kp1 + 20"
    unfolding c1 c2 by simp
  have h3: "(2::nat) = 1 \<or> (2::nat) = 2 \<or> (2::nat) = 3" by simp
  from dp_fallback_best_per_class [OF h1 h2 h3]
  have "\<forall>c cs. candidates 2 (flat_well 2) (two_spikes 2 0 1) no_prior = c # cs \<longrightarrow>
      position (dp_post_process (flat_well 2) (two_spikes 2 0 1) no_prior) 2 = Some (fst c) \<and>
      (\<forall>c' \<in> set cs. snd c' \<le> snd c)"
    by blast
  with c2 have "position (dp_post_process (flat_well 2) (two_spikes 2 0 1) no_prior) 2
      = Some (fst ((1::nat), 0.9::real))"
    by blast
  then have "position (dp_post_process (flat_well 2) (two_spikes 2 0 1) no_prior) 2 = Some 1"
    by simp
  with h1 c1 c2 show ?thesis by (intro conjI)
qed

section \<open>Claims about candidate generation\<close>

lemma set_candidates:
  "set (candidates kp wd mp pr) = set (raw_candidates kp wd mp pr)"
  by (simp add: candidates_def)

lemma raw_candidates_iff:
  "(pos, s) \<in> set (raw_candidates kp wd mp pr) \<longleftrightarrow>
     pos \<in> set (top_k_indices kp mp) \<and> 0.1 < map (col kp) mp ! pos \<and>
     s = map (col kp) mp ! pos
           + phys_score kp (length wd) (map JX wd) (np_diff_prepend (map JX wd)) pos
           + prior_score pr kp pos"
  unfolding raw_candidates_def Let_def by auto

lemma phys_score_last:
  "pos + 1 = n \<Longrightarrow> phys_score kp n jx jx_diff pos = 0"
  by (simp add: phys_score_def)

lemma phys_score_first:
  "kp = 2 \<or> n \<le> 10 \<Longrightarrow> phys_score kp n jx jx_diff 0 = 0"
  by (auto simp: phys_score_def)

lemma phys_score_first_forward:
  assumes "10 < n"
  shows "phys_score 1 n jx jx_diff 0 =
           (if mean (slice 1 11 jx) - jx ! 0 > 0.5 then 0.3 else 0)"
    and "phys_score 3 n jx jx_diff 0 =
           (if mean (slice 1 11 jx) - jx ! 0 < - 0.3 then 0.3 else 0)"
  using assms by (simp_all add: phys_score_def Let_def)

lemma candidates_score_eq:
  assumes "(pos, s) \<in> set (candidates kp wd mp pr)"
  shows "s = map (col kp) mp ! pos
           + phys_score kp (length wd) (map JX wd) (np_diff_prepend (map JX wd)) pos
           + prior_score pr kp pos"
proof -
  from assms have "(pos, s) \<in> set (raw_candidates kp wd mp pr)"
    by (simp add: set_candidates)
  then show ?thesis by (simp only: raw_candidates_iff)
qed

lemma boundary_no_bonus:
  assumes "(pos, s) \<in> set (candidates kp wd mp pr)"
    and "pos + 1 = length wd \<or> (pos = 0 \<and> (kp = 2 \<or> length wd \<le> 10))"
  shows "s = map (col kp) mp ! pos + prior_score pr kp pos"
proof -
  from assms(2) have "phys_score kp (length wd) (map JX wd) (np_diff_prepend (map JX wd)) pos = 0"
    using phys_score_last phys_score_first by blast
  with candidates_score_eq [OF assms(1)] show ?thesis by simp
qed

lemma first_position_increase:
  assumes "(pos, s) \<in> set (candidates kp wd mp pr)"
    and "pos = 0 \<and> 10 < length wd \<and> kp = 1"
  shows "s = map (col kp) mp ! pos
           + (if mean (slice 1 11 (map JX wd)) - map JX wd ! 0 > 0.5 then 0.3 else 0)
           + prior_score pr kp pos"
proof -
  from assms(2) have "phys_score kp (length wd) (map JX wd) (np_diff_prepend (map JX wd)) pos
      = (if mean (slice 1 11 (map JX wd)) - map JX wd ! 0 > 0.5 then 0.3 else 0)"
    by (simp only: phys_score_first_forward(1))
  with candidates_score_eq [OF assms(1)] show ?thesis by (simp only:)
qed

lemma first_position_decrease:
  assumes "(pos, s) \<in> set (candidates kp wd mp pr)"
    and "pos = 0 \<and> 10 < length wd \<and> kp = 3"
  shows "s = map (col kp) mp ! pos
           + (if mean (slice 1 11 (map JX wd)) - map JX wd ! 0 < - 0.3 then 0.3 else 0)
           + prior_score pr kp pos"
proof -
  from assms(2) have "phys_score kp (length wd) (map JX wd) (np_diff_prepend (map JX wd)) pos
      = (if mean (slice 1 11 (map JX wd)) - map JX wd ! 0 < - 0.3 then 0.3 else 0)"
    by (simp only: phys_score_first_forward(2))
  with candidates_score_eq [OF assms(1)] show ?thesis by (simp only:)
qed

text \<open>
  C3 (amended). Every position among the top K of a class whose raw probability exceeds
  0.1 is a candidate, the boundary positions included. A candidate at position n - 1
  never receives the trend bonus; a candidate at position 0 does not receive it for class
  2, nor for any class when n \<le> 10. For classes 1 and 3 the window lies after the
  position, so once n > 10 a candidate at position 0 receives the bonus exactly when the
  mean of the angle over [1:11] minus the angle at 0 is above 0.5 (class 1), respectively
  below -0.3 (class 3).
\<close>

theorem candidates_boundary:
  "(\<forall>idx \<in> set (top_k_indices kp model_proba).
      0.1 < map (col kp) model_proba ! idx \<longrightarrow>
      idx \<in> fst ` set (candidates kp well_data model_proba prior_info)) \<and>
   (\<forall>(pos, s) \<in> set (candidates kp well_data model_proba prior_info).
      pos + 1 = length well_data \<or> (pos = 0 \<and> (kp = 2 \<or> length well_data \<le> 10)) \<longrightarrow>
      s = map (col kp) model_proba ! pos + prior_score prior_info kp pos) \<and>
   (\<forall>(pos, s) \<in> set (candidates kp well_data model_proba prior_info).
      pos = 0 \<and> 10 < length well_data \<and> kp = 1 \<longrightarrow>
      s = map (col kp) model_proba ! pos
            + (if mean (slice 1 11 (map JX well_data)) - map JX well_data ! 0 > 0.5
               then 0.3 else 0)
            + prior_score prior_info kp pos) \<and>
   (\<forall>(pos, s) \<in> set (candidates kp well_data model_proba prior_info).
      pos = 0 \<and> 10 < length well_data \<and> kp = 3 \<longrightarrow>
      s = map (col kp) model_proba ! pos
            + (if mean (slice 1 11 (map JX well_data)) - map JX well_data ! 0 < - 0.3
               then 0.3 else 0)
            + prior_score prior_info kp pos)"
proof (intro conjI ballI)
  fix idx
  assume idx: "idx \<in> set (top_k_indices kp model_proba)"
  show "0.1 < map (col kp) model_proba ! idx \<longrightarrow>
      idx \<in> fst ` set (candidates kp well_data model_proba prior_info)"
  proof
    assume "0.1 < map (col kp) model_proba ! idx"
    with idx have "(idx, map (col kp) model_proba ! idx
        + phys_score kp (length well_data) (map JX well_data) (np_diff_prepend (map JX well_data)) idx
        + prior_score prior_info kp idx) \<in> set (candidates kp well_data model_proba prior_info)"
      unfolding set_candidates raw_candidates_iff by simp
    then show "idx \<in> fst ` set (candidates kp well_data model_proba prior_info)"
      by (rule image_eqI [rotated]) simp
  qed
next
  fix c
  assume c: "c \<in> set (candidates kp well_data model_proba prior_info)"
  obtain pos s where p: "c = (pos, s)" by (cases c)
  from c p have m: "(pos, s) \<in> set (candidates kp well_data model_proba prior_info)" by simp
  show "case c of (pos, s) \<Rightarrow>
      pos + 1 = length well_data \<or> (pos = 0 \<and> (kp = 2 \<or> length well_data \<le> 10)) \<longrightarrow>
      s = map (col kp) model_proba ! pos + prior_score prior_info kp pos"
    unfolding p prod.case by (rule impI) (erule boundary_no_bonus [OF m])
next
  fix c
  assume c: "c \<in> set (candidates kp well_data model_proba prior_info)"
  obtain pos s where p: "c = (pos, s)" by (cases c)
  from c p have m: "(pos, s) \<in> set (candidates kp well_data model_proba prior_info)" by simp
  show "case c of (pos, s) \<Rightarrow>
      pos = 0 \<and> 10 < length well_data \<and> kp = 1 \<longrightarrow>
      s = map (col kp) model_proba ! pos
            + (if mean (slice 1 11 (map JX well_data)) - map JX well_data ! 0 > 0.5
               then 0.3 else 0)
            + prior_score prior_info kp pos"
    unfolding p prod.case by (rule impI) (erule first_position_increase [OF m])
next
  fix c
  assume c: "c \<in> set (candidates kp well_data model_proba prior_info)"
  obtain pos s where p: "c = (pos, s)" by (cases c)
  from c p have m: "(pos, s) \<in> set (candidates kp well_data model_proba prior_info)" by simp
  show "case c of (pos, s) \<Rightarrow>
      pos = 0 \<and> 10 < length well_data \<and> kp = 3 \<longrightarrow>
      s = map (col kp) model_proba ! pos
            + (if mean (slice 1 11 (map JX well_data)) - map JX well_data ! 0 < - 0.3
               then 0.3 else 0)
            + prior_score prior_info kp pos"
    unfolding p prod.case by (rule impI) (erule first_position_decrease [OF m])
qed

theorem candidates_boundary_witness:
  "(0, 0.8) \<in> set (candidates 1 rising_well boundary_proba no_prior) \<and>
   (10, 0.4) \<in> set (candidates 1 rising_well boundary_proba no_prior) \<and>
   10 + 1 = length rising_well \<and> 10 < length rising_well \<and>
   (0.4::real) = map (col 1) boundary_proba ! 10 + prior_score no_prior 1 10 \<and>
   (0.8::real) = map (col 1) boundary_proba ! 0
      + (if mean (slice 1 11 (map JX rising_well)) - map JX rising_well ! 0 > 0.5
         then 0.3 else 0)
      + prior_score no_prior 1 0"
proof -
  have h1: "((0::nat), 0.8::real) \<in> set (candidates 1 rising_well boundary_proba no_prior)"
    by code_simp
  have h2: "((10::nat), 0.4::real) \<in> set (candidates 1 rising_well boundary_proba no_prior)"
    by code_simp
  have h3: "10 + 1 = length rising_well" by code_simp
  have h4: "10 < length rising_well" by code_simp
  note t = candidates_boundary [of 1 boundary_proba rising_well no_prior]
  from t h2 have "case ((10::nat), 0.4::real) of (pos, s) \<Rightarrow>
      pos + 1 = length rising_well \<or> (pos = 0 \<and> ((1::nat) = 2 \<or> length rising_well \<le> 10)) \<longrightarrow>
      s = map (col 1) boundary_proba ! pos + prior_score no_prior 1 pos"
    by blast
  with h3 have h5: "(0.4::real) = map (col 1) boundary_proba ! 10 + prior_score no_prior 1 10"
    by simp
  from t h1 have "case ((0::nat), 0.8::real) of (pos, s) \<Rightarrow>
      pos = 0 \<and> 10 < length rising_well \<and> (1::nat) = 1 \<longrightarrow>
      s = map (col 1) boundary_proba ! pos
            + (if mean (slice 1 11 (map JX rising_well)) - map JX rising_well ! 0 > 0.5
               then 0.3 else 0)
            + prior_score no_prior 1 pos"
    by blast
  with h4 have h6: "(0.8::real) = map (col 1) boundary_proba ! 0
      + (if mean (slice 1 11 (map JX rising_well)) - map JX rising_well ! 0 > 0.5
         then 0.3 else 0)
      + prior_score no_prior 1 0"
    by simp
  show ?thesis using h1 h2 h3 h4 h5 h6 by (intro conjI)
qed

text \<open>
  C3 as stated fails at position 0 for class 1: in a well of 11 samples whose angle
  rises from 0 to 1 after the first sample, the candidate at position 0 with raw
  probability 0.5 gets the bonus and the score 0.8.
\<close>

theorem candidates_first_position_counterexample:
  "phys_score 1 (length rising_well) (map JX rising_well)
     (np_diff_prepend (map JX rising_well)) 0 = 0.3 \<and>
   candidates 1 rising_well (spike_at 1 0.5 0 11) no_prior = [(0, 0.8)]"
  by code_simp

text \<open>
  C4 (amended). A candidate of class 2 at position pos has the trend bonus 0.3 in its
  score exactly when pos \<ge> 10 and pos < n - 10 and the standard deviation of the first
  difference of the angle over the window [pos-10:pos+10] is below 0.2; otherwise its
  score is the raw probability plus the prior bonus.
\<close>

theorem stabilize_bonus_iff:
  assumes "(pos, s) \<in> set (candidates 2 well_data model_proba prior_info)"
  shows "s = map (col 2) model_proba ! pos
           + (if 10 \<le> pos \<and> int pos < int (length well_data) - 10 \<and>
                 std (slice (pos - 10) (pos + 10) (np_diff_prepend (map JX well_data))) < 0.2
              then 0.3 else 0)
           + prior_score prior_info 2 pos"
proof -
  from assms have "(pos, s) \<in> set (raw_candidates 2 well_data model_proba prior_info)"
    by (simp add: set_candidates)
  then have "s = map (col 2) model_proba ! pos
      + phys_score 2 (length well_data) (map JX well_data) (np_diff_prepend (map JX well_data)) pos
      + prior_score prior_info 2 pos"
    by (simp only: raw_candidates_iff)
  then show ?thesis by (simp add: phys_score_def Let_def)
qed

theorem stabilize_bonus_iff_witness:
  "(10, 1.2) \<in> set (candidates 2 (flat_well 21) (spike_at 2 0.9 10 21) no_prior) \<and>
   (1.2::real) = map (col 2) (spike_at 2 0.9 10 21) ! 10
      + (if 10 \<le> (10::nat) \<and> int 10 < int (length (flat_well 21)) - 10 \<and>
            std (slice (10 - 10) (10 + 10) (np_diff_prepend (map JX (flat_well 21)))) < 0.2
         then 0.3 else 0)
      + prior_score no_prior 2 10"
proof -
  have h: "((10::nat), 1.2::real) \<in> set (candidates 2 (flat_well 21) (spike_at 2 0.9 10 21) no_prior)"
    by code_simp
  from stabilize_bonus_iff [OF h] h show ?thesis by (intro conjI)
qed

text \<open>
  C4 as stated fails at pos = n - 10: in a well of 20 samples of constant angle the
  position 10 satisfies pos \<ge> 10, pos \<le> n - 10 and has a window of standard deviation
  0, yet its candidate keeps the raw score 0.9.
\<close>

theorem stabilize_bonus_counterexample:
  "candidates 2 (flat_well 20) (spike_at 2 0.9 10 20) no_prior = [(10, 0.9)] \<and>
   (10::nat) \<ge> 10 \<and> (10::nat) \<le> length (flat_well 20) - 10 \<and>
   std (slice (10 - 10) (10 + 10) (np_diff_prepend (map JX (flat_well 20)))) < 0.2"
proof -
  have "candidates 2 (flat_well 20) (spike_at 2 0.9 10 20) no_prior = [(10, 0.9)]"
    by code_simp
  moreover have "(10::nat) \<le> length (flat_well 20) - 10" by code_simp
  moreover have "std (slice (10 - 10) (10 + 10) (np_diff_prepend (map JX (flat_well 20)))) < 0.2"
    unfolding std_less_iff by code_simp
  ultimately show ?thesis by simp
qed

lemma sorted_raw_candidates:
  "sorted (map (\<lambda>c. map (col kp) mp ! fst c) (raw_candidates kp wd mp pr))"
proof -
  let ?ps = "map (col kp) mp"
  have "sorted (map (\<lambda>i. ?ps ! i) (argsort ?ps))"
    unfolding argsort_def by (rule sorted_sort_key)
  then have "sorted (map (\<lambda>i. ?ps ! i) (top_k_indices kp mp))"
    unfolding top_k_indices_def last_k_def by (simp add: drop_map [symmetric] sorted_wrt_drop)
  then have "sorted (map (\<lambda>i. ?ps ! i) (filter (\<lambda>idx. 0.1 < ?ps ! idx) (top_k_indices kp mp)))"
    by (rule sorted_filter)
  then show ?thesis
    unfolding raw_candidates_def Let_def by (simp add: comp_def)
qed

text \<open>
  C5 (amended). The candidate list of a class, and so its first five entries handed to
  the search, is sorted in descending order of total score. Candidates with equal total
  score keep the order in which they were generated, which is the ascending order of raw
  probability, not the order of position.
\<close>

theorem candidates_sorted_stable:
  "sorted_wrt (\<lambda>a b. snd b \<le> snd a) (candidates kp well_data model_proba prior_info) \<and>
   sorted_wrt (\<lambda>a b. snd b \<le> snd a) (take 5 (candidates kp well_data model_proba prior_info)) \<and>
   filter (\<lambda>c. snd c = s) (candidates kp well_data model_proba prior_info)
     = filter (\<lambda>c. snd c = s) (raw_candidates kp well_data model_proba prior_info) \<and>
   sorted (map (\<lambda>c. map (col kp) model_proba ! fst c)
             (raw_candidates kp well_data model_proba prior_info))"
proof -
  let ?cs = "candidates kp well_data model_proba prior_info"
  let ?raw = "raw_candidates kp well_data model_proba prior_info"
  have "sorted (map (\<lambda>c. - snd c) ?cs)"
    unfolding candidates_def by (rule sorted_sort_key)
  then have 1: "sorted_wrt (\<lambda>a b. snd b \<le> snd a) ?cs"
    by (simp add: sorted_map)
  then have 2: "sorted_wrt (\<lambda>a b. snd b \<le> snd a) (take 5 ?cs)"
    by (rule sorted_wrt_take)
  have "filter (\<lambda>c. - snd c = - s) ?cs = filter (\<lambda>c. - snd c = - s) ?raw"
    unfolding candidates_def by (rule sort_key_stable)
  then have 3: "filter (\<lambda>c. snd c = s) ?cs = filter (\<lambda>c. snd c = s) ?raw"
    by simp
  from 1 2 3 sorted_raw_candidates show ?thesis by (intro conjI)
qed

text \<open>
  C5 as stated fails on a tie: position 0 has raw probability 0.5, position 15 has raw
  probability 0.3 and the full prior bonus 0.2. Both total 0.5, and position 15 comes
  first.
\<close>

theorem candidates_tie_counterexample:
  "candidates 1 (flat_well 16) tie_proba prior_at_15 = [(15, 0.5), (0, 0.5)]"
  by code_simp

section \<open>Claims about the prior hint\<close>

lemma prior_keypoints_apply:
  assumes "kp = 1 \<or> kp = 2 \<or> kp = 3"
  shows "prior_keypoints has_col grp kp =
     (if has_col kp \<and> np_min (dist_column kp grp) < 900
      then Some (int (argmin (dist_column kp grp))) else None)"
  using assms by (auto simp: prior_keypoints_def Let_def)

lemma np_min_in: "ds \<noteq> [] \<Longrightarrow> np_min ds \<in> set ds"
  unfolding np_min_def by (rule Min_in) simp_all

lemma np_min_le: "d \<in> set ds \<Longrightarrow> np_min ds \<le> d"
  unfolding np_min_def by (rule Min_le) simp_all

lemma takeWhile_stops:
  assumes "x \<in> set xs" and "\<not> P x"
  shows "length (takeWhile P xs) < length xs"
  using assms by (induction xs) auto

lemma argmin_less:
  assumes "ds \<noteq> []"
  shows "argmin ds < length ds"
  unfolding argmin_def
  by (rule takeWhile_stops [OF np_min_in [OF assms]]) simp

lemma argmin_nth:
  assumes "ds \<noteq> []"
  shows "ds ! argmin ds = np_min ds"
proof -
  from argmin_less [OF assms]
  have "length (takeWhile (\<lambda>d. d \<noteq> np_min ds) ds) < length ds"
    by (simp add: argmin_def)
  then have "\<not> (ds ! length (takeWhile (\<lambda>d. d \<noteq> np_min ds) ds) \<noteq> np_min ds)"
    by (rule nth_length_takeWhile)
  then show ?thesis by (simp add: argmin_def)
qed

lemma argmin_first:
  assumes "j < argmin ds"
  shows "ds ! j \<noteq> np_min ds"
proof -
  let ?tw = "takeWhile (\<lambda>d. d \<noteq> np_min ds) ds"
  from assms have j: "j < length ?tw" by (simp add: argmin_def)
  then have "?tw ! j \<in> set ?tw" by (rule nth_mem)
  then have "?tw ! j \<noteq> np_min ds" by (auto dest: set_takeWhileD)
  with j show ?thesis by (simp add: takeWhile_nth)
qed

text \<open>
  C6 (amended). For every group and every class, a prior position hint is derived
  exactly when the distance-to-prior column of the class is present and its minimum is
  below 900 (the value 999 marks "no prior"). The hint is the first sample index at
  which the distance is minimal. Without a hint the prior bonus of every candidate of
  the class is 0, and nothing is raised.
\<close>

theorem prior_hint_iff:
  assumes "kp = 1 \<or> kp = 2 \<or> kp = 3" and "grp \<noteq> []"
  shows "prior_keypoints has_col grp kp =
           (if has_col kp \<and> np_min (dist_column kp grp) < 900
            then Some (int (argmin (dist_column kp grp))) else None) \<and>
         argmin (dist_column kp grp) < length grp \<and>
         dist_column kp grp ! argmin (dist_column kp grp) = np_min (dist_column kp grp) \<and>
         (\<forall>d \<in> set (dist_column kp grp). np_min (dist_column kp grp) \<le> d) \<and>
         (\<forall>j < argmin (dist_column kp grp).
            dist_column kp grp ! j \<noteq> np_min (dist_column kp grp)) \<and>
         (prior_keypoints has_col grp kp = None \<longrightarrow>
            prior_score (prior_keypoints has_col grp) kp idx = 0)"
proof -
  let ?ds = "dist_column kp grp"
  from assms(2) have ne: "?ds \<noteq> []" by (simp add: dist_column_def)
  have len: "length ?ds = length grp" by (simp add: dist_column_def)
  have 1: "prior_keypoints has_col grp kp =
      (if has_col kp \<and> np_min ?ds < 900 then Some (int (argmin ?ds)) else None)"
    using assms(1) by (rule prior_keypoints_apply)
  have 2: "argmin ?ds < length grp" using argmin_less [OF ne] len by simp
  have 3: "?ds ! argmin ?ds = np_min ?ds" using ne by (rule argmin_nth)
  have 4: "\<forall>d \<in> set ?ds. np_min ?ds \<le> d" by (simp add: np_min_le)
  have 5: "\<forall>j < argmin ?ds. ?ds ! j \<noteq> np_min ?ds" by (simp add: argmin_first)
  have 6: "prior_keypoints has_col grp kp = None \<longrightarrow>
      prior_score (prior_keypoints has_col grp) kp idx = 0"
    by (simp add: prior_score_def)
  from 1 2 3 4 5 6 show ?thesis by (intro conjI)
qed

theorem prior_hint_iff_witness:
  "((1::nat) = 1 \<or> (1::nat) = 2 \<or> (1::nat) = 3) \<and> near_group \<noteq> [] \<and>
   all_cols 1 \<and> np_min (dist_column 1 near_group) < 900 \<and>
   prior_keypoints all_cols near_group 1 = Some (int (argmin (dist_column 1 near_group))) \<and>
   argmin (dist_column 1 near_group) = 1"
proof -
  have h1: "(1::nat) = 1 \<or> (1::nat) = 2 \<or> (1::nat) = 3" by simp
  have h2: "near_group \<noteq> []" by code_simp
  have h3: "all_cols 1" by code_simp
  have h4: "np_min (dist_column 1 near_group) < 900" by code_simp
  have h5: "argmin (dist_column 1 near_group) = 1" by code_simp
  from prior_hint_iff [OF h1 h2, of all_cols] h3 h4
  have "prior_keypoints all_cols near_group 1 = Some (int (argmin (dist_column 1 near_group)))"
    by simp
  with h1 h2 h3 h4 h5 show ?thesis by (intro conjI)
qed

text \<open>
  C6 as stated fails between the two constants: a present column whose minimum is 950
  is below 999, and no hint is derived.
\<close>

theorem prior_hint_threshold_counterexample:
  "all_cols 1 \<and> np_min (dist_column 1 far_group) < 999 \<and>
   prior_keypoints all_cols far_group 1 = None"
  by code_simp

section \<open>Claims about the batch post-processing\<close>

lemma pd_unique_distinct: "distinct (pd_unique xs)"
  by (simp add: pd_unique_def)

lemma pd_unique_set: "set (pd_unique xs) = set xs"
  by (simp add: pd_unique_def)

lemma group_indices_iff:
  "i \<in> set (group_indices rs w) \<longleftrightarrow> i < length rs \<and> well_id (rs ! i) = w"
  by (auto simp: group_indices_def)

lemma group_indices_nonempty:
  assumes "w \<in> well_id ` set rs"
  shows "group_indices rs w \<noteq> []"
proof -
  from assms obtain i where "i < length rs" and "well_id (rs ! i) = w"
    by (auto simp: in_set_conv_nth)
  then have "i \<in> set (group_indices rs w)" by (simp add: group_indices_iff)
  then show ?thesis by auto
qed

lemma dp_post_process_returns:
  "well_data \<noteq> [] \<Longrightarrow> \<exists>combo. dp_post_process well_data model_proba prior_info = Inr combo"
  by (simp add: dp_post_process_def Let_def)

lemma decode_well_returns:
  assumes "w \<in> well_id ` set (rows tf)"
  shows "\<exists>combo. decode_well tf fp w = Inr combo"
  unfolding decode_well_def Let_def
  by (rule dp_post_process_returns) (simp add: group_indices_nonempty [OF assms])

lemma add_weighted_returns:
  assumes "length proba = length acc \<or> length proba = 1"
  shows "\<exists>acc'. add_weighted acc proba w = Inr acc' \<and> length acc' = length acc"
  using assms by (auto simp: add_weighted_def)

lemma fuse_returns:
  assumes "\<forall>(name, proba) \<in> set srcs. weights name \<noteq> None \<and> (length proba = n \<or> length proba = 1)"
    and "length acc = n"
  shows "\<exists>fp. fuse weights acc srcs = Inr fp \<and> length fp = n"
  using assms
proof (induction srcs arbitrary: acc)
  case Nil
  then show ?case by simp
next
  case (Cons src srcs)
  obtain name proba where src: "src = (name, proba)" by (cases src)
  with Cons.prems obtain w where w: "weights name = Some w"
    and len: "length proba = length acc \<or> length proba = 1" by auto
  from add_weighted_returns [OF len] obtain acc' where
    acc': "add_weighted acc proba w = Inr acc'" "length acc' = n"
    using Cons.prems(2) by auto
  from Cons.prems(1) have "\<forall>(name, proba) \<in> set srcs.
      weights name \<noteq> None \<and> (length proba = n \<or> length proba = 1)" by simp
  from Cons.IH [OF this acc'(2)] show ?case by (simp add: src w acc'(1))
qed

lemma fused_proba_returns:
  assumes "\<forall>(name, proba) \<in> set (tree_preds @ dl_preds).
      weights name \<noteq> None \<and> (length proba = N \<or> length proba = 1)"
  shows "\<exists>fp. fused_proba N tree_preds dl_preds weights = Inr fp \<and> length fp = N"
proof -
  from assms have t: "\<forall>(name, proba) \<in> set tree_preds.
      weights name \<noteq> None \<and> (length proba = N \<or> length proba = 1)"
    and d: "\<forall>(name, proba) \<in> set dl_preds.
      weights name \<noteq> None \<and> (length proba = N \<or> length proba = 1)" by auto
  from fuse_returns [OF t, of "replicate N (0, 0, 0, 0)"] obtain fp1
    where fp1: "fuse weights (replicate N (0, 0, 0, 0)) tree_preds = Inr fp1" "length fp1 = N"
    by auto
  from fuse_returns [OF d fp1(2)] show ?thesis by (simp add: fused_proba_def fp1(1))
qed

lemma mark_step_nth:
  assumes "g < length preds"
  shows "(case combo kp of None \<Rightarrow> preds
          | Some idx \<Rightarrow> if idx < length gi then preds[gi ! idx := int kp] else preds) ! g
       = (if \<exists>idx. combo kp = Some idx \<and> idx < length gi \<and> gi ! idx = g then int kp
          else preds ! g)"
  using assms by (auto split: option.splits simp: nth_list_update)

lemma mark_length: "length (mark gi combo preds) = length preds"
  by (simp add: mark_def split: option.splits)

lemma mark_nth:
  assumes "g < length preds"
  shows "mark gi combo preds ! g = preds ! g \<or>
         (\<exists>kp idx. (kp = 1 \<or> kp = 2 \<or> kp = 3) \<and> combo kp = Some idx \<and> idx < length gi \<and>
            gi ! idx = g \<and> mark gi combo preds ! g = int kp)"
proof -
  define f where "f = (\<lambda>preds kp. case combo kp of None \<Rightarrow> preds
      | Some idx \<Rightarrow> if idx < length gi then preds[gi ! idx := int kp] else preds)"
  define hit where "hit = (\<lambda>kp. \<exists>idx. combo kp = Some idx \<and> idx < length gi \<and> gi ! idx = g)"
  have len: "length (f p kp) = length p" for p kp by (simp add: f_def split: option.splits)
  have nth: "f p kp ! g = (if hit kp then int kp else p ! g)" if "g < length p" for p kp
    unfolding f_def hit_def using that by (rule mark_step_nth)
  define p1 where "p1 = f preds 1"
  define p2 where "p2 = f p1 2"
  define p3 where "p3 = f p2 3"
  have m: "mark gi combo preds = p3"
    unfolding p3_def p2_def p1_def f_def by (simp only: mark_def foldl.simps)
  have g1: "g < length p1" using assms by (simp only: p1_def len)
  then have g2: "g < length p2" by (simp only: p2_def len)
  have e3: "p3 ! g = (if hit 3 then int 3 else p2 ! g)" unfolding p3_def using g2 by (rule nth)
  have e2: "p2 ! g = (if hit 2 then int 2 else p1 ! g)" unfolding p2_def using g1 by (rule nth)
  have e1: "p1 ! g = (if hit 1 then int 1 else preds ! g)" unfolding p1_def using assms by (rule nth)
  have found: "\<exists>kp idx. (kp = 1 \<or> kp = 2 \<or> kp = 3) \<and> combo kp = Some idx \<and> idx < length gi \<and>
      gi ! idx = g \<and> p3 ! g = int kp" if "hit k" and "p3 ! g = int k" and "k = 1 \<or> k = 2 \<or> k = 3" for k
    using that unfolding hit_def by blast
  show ?thesis
  proof (cases "hit 3")
    case True
    with e3 have "p3 ! g = int 3" by simp
    then have "\<exists>kp idx. (kp = 1 \<or> kp = 2 \<or> kp = 3) \<and> combo kp = Some idx \<and>
        idx < length gi \<and> gi ! idx = g \<and> p3 ! g = int kp"
      by (rule found [OF True]) simp
    then show ?thesis unfolding m by (rule disjI2)
  next
    case h3: False
    show ?thesis
    proof (cases "hit 2")
      case True
      with h3 e3 e2 have "p3 ! g = int 2" by simp
      then have "\<exists>kp idx. (kp = 1 \<or> kp = 2 \<or> kp = 3) \<and> combo kp = Some idx \<and>
        idx < length gi \<and> gi ! idx = g \<and> p3 ! g = int kp"
      by (rule found [OF True]) simp
    then show ?thesis unfolding m by (rule disjI2)
    next
      case h2: False
      show ?thesis
      proof (cases "hit 1")
        case True
        with h3 h2 e3 e2 e1 have "p3 ! g = int 1" by simp
        then have "\<exists>kp idx. (kp = 1 \<or> kp = 2 \<or> kp = 3) \<and> combo kp = Some idx \<and>
        idx < length gi \<and> gi ! idx = g \<and> p3 ! g = int kp"
      by (rule found [OF True]) simp
    then show ?thesis unfolding m by (rule disjI2)
      next
        case False
        with h3 h2 e3 e2 e1 have "p3 ! g = preds ! g" by simp
        then show ?thesis unfolding m by (rule disjI1)
      qed
    qed
  qed
qed

lemma mark_inv:
  assumes inv: "labels_inv tf fp preds"
    and w: "w \<in> well_id ` set (rows tf)"
    and dec: "decode_well tf fp w = Inr combo"
  shows "labels_inv tf fp (mark (group_indices (rows tf) w) combo preds)"
  unfolding labels_inv_def
proof (intro conjI allI impI)
  let ?gi = "group_indices (rows tf) w"
  let ?m = "mark ?gi combo preds"
  from inv have len: "length preds = length (rows tf)" by (simp add: labels_inv_def)
  then show "length ?m = length (rows tf)" by (simp add: mark_length)
  fix g
  assume g: "g < length (rows tf)" and nz: "?m ! g \<noteq> 0"
  from g len have "g < length preds" by simp
  from mark_nth [OF this, of ?gi combo]
  show "selected tf fp g (?m ! g)"
  proof
    assume "?m ! g = preds ! g"
    with inv g nz show ?thesis by (simp add: labels_inv_def)
  next
    assume "\<exists>kp idx. (kp = 1 \<or> kp = 2 \<or> kp = 3) \<and> combo kp = Some idx \<and> idx < length ?gi \<and>
        ?gi ! idx = g \<and> ?m ! g = int kp"
    then obtain kp idx where kp: "kp = 1 \<or> kp = 2 \<or> kp = 3" and c: "combo kp = Some idx"
      and idx: "idx < length ?gi" and gi: "?gi ! idx = g" and v: "?m ! g = int kp"
      by blast
    from idx gi have "g \<in> set ?gi" by (auto simp: in_set_conv_nth)
    then have wg: "well_id (rows tf ! g) = w" by (simp add: group_indices_iff)
    show ?thesis
      unfolding selected_def wg using kp c idx gi v dec by blast
  qed
qed

lemma process_wells_inv:
  assumes "set ws \<subseteq> well_id ` set (rows tf)" and "labels_inv tf fp preds"
  shows "\<exists>preds'. process_wells tf fp preds ws = Inr preds' \<and> labels_inv tf fp preds'"
  using assms
proof (induction ws arbitrary: preds)
  case Nil
  then show ?case by simp
next
  case (Cons w ws)
  then have w: "w \<in> well_id ` set (rows tf)" by simp
  from decode_well_returns [OF w] obtain combo where dec: "decode_well tf fp w = Inr combo"
    by blast
  from Cons.prems(2) w dec
  have "labels_inv tf fp (mark (group_indices (rows tf) w) combo preds)" by (rule mark_inv)
  moreover from Cons.prems(1) have "set ws \<subseteq> well_id ` set (rows tf)" by simp
  ultimately have "\<exists>preds'. process_wells tf fp
      (mark (group_indices (rows tf) w) combo preds) ws = Inr preds' \<and> labels_inv tf fp preds'"
    by (rule Cons.IH [rotated])
  with dec show ?case by simp
qed

lemma labels_inv_zeros: "labels_inv tf fp (replicate (length (rows tf)) 0)"
  by (simp add: labels_inv_def)

lemma hits_iff:
  "hits gi combo g kp \<longleftrightarrow> (\<exists>idx. combo kp = Some idx \<and> idx < length gi \<and> gi ! idx = g)"
  by (auto simp: hits_def split: option.splits)

lemma mark_nth_eq:
  assumes "g < length preds"
  shows "mark gi combo preds ! g =
     (if hits gi combo g 3 then 3 else if hits gi combo g 2 then 2
      else if hits gi combo g 1 then 1 else preds ! g)"
proof -
  define f where "f = (\<lambda>preds kp. case combo kp of None \<Rightarrow> preds
      | Some idx \<Rightarrow> if idx < length gi then preds[gi ! idx := int kp] else preds)"
  have len: "length (f p kp) = length p" for p kp by (simp add: f_def split: option.splits)
  have nth: "f p kp ! g = (if hits gi combo g kp then int kp else p ! g)" if "g < length p" for p kp
    unfolding f_def hits_iff using that by (rule mark_step_nth)
  define p1 where "p1 = f preds 1"
  define p2 where "p2 = f p1 2"
  define p3 where "p3 = f p2 3"
  have m: "mark gi combo preds = p3"
    unfolding p3_def p2_def p1_def f_def by (simp only: mark_def foldl.simps)
  have g1: "g < length p1" using assms by (simp only: p1_def len)
  then have g2: "g < length p2" by (simp only: p2_def len)
  have e3: "p3 ! g = (if hits gi combo g 3 then int 3 else p2 ! g)"
    unfolding p3_def using g2 by (rule nth)
  have e2: "p2 ! g = (if hits gi combo g 2 then int 2 else p1 ! g)"
    unfolding p2_def using g1 by (rule nth)
  have e1: "p1 ! g = (if hits gi combo g 1 then int 1 else preds ! g)"
    unfolding p1_def using assms by (rule nth)
  from e3 e2 e1 show ?thesis unfolding m by simp
qed

lemma hits_in_group:
  assumes "hits (group_indices rs w) combo g kp"
  shows "g < length rs \<and> well_id (rs ! g) = w"
proof -
  from assms obtain idx where "idx < length (group_indices rs w)"
    and "group_indices rs w ! idx = g" by (auto simp: hits_iff)
  then have "g \<in> set (group_indices rs w)" by (auto simp: in_set_conv_nth)
  then show ?thesis by (simp add: group_indices_iff)
qed

lemma mark_exact:
  assumes inv: "labelled_upto tf fp D preds"
    and w: "w \<notin> D"
    and dec: "decode_well tf fp w = Inr combo"
  shows "labelled_upto tf fp (insert w D) (mark (group_indices (rows tf) w) combo preds)"
  unfolding labelled_upto_def
proof (intro conjI allI impI)
  let ?gi = "group_indices (rows tf) w"
  let ?m = "mark ?gi combo preds"
  from inv have len: "length preds = length (rows tf)" by (simp add: labelled_upto_def)
  then show "length ?m = length (rows tf)" by (simp add: mark_length)
  fix g
  assume g: "g < length (rows tf)"
  with len have "g < length preds" by simp
  then have m: "?m ! g = (if hits ?gi combo g 3 then 3 else if hits ?gi combo g 2 then 2
      else if hits ?gi combo g 1 then 1 else preds ! g)"
    by (rule mark_nth_eq)
  from inv g have old: "preds ! g = (if well_id (rows tf ! g) \<in> D then expected_label tf fp g else 0)"
    by (simp add: labelled_upto_def)
  show "?m ! g = (if well_id (rows tf ! g) \<in> insert w D then expected_label tf fp g else 0)"
  proof (cases "well_id (rows tf ! g) = w")
    case True
    with dec have "writes tf fp g kp = hits ?gi combo g kp" for kp
      by (simp add: writes_def)
    moreover from True w old have "preds ! g = 0" by simp
    ultimately show ?thesis using True m by (simp add: expected_label_def)
  next
    case False
    then have "\<not> hits ?gi combo g kp" for kp
      using hits_in_group [of "rows tf" w combo g kp] by blast
    with m old False show ?thesis by simp
  qed
qed

lemma process_wells_exact:
  assumes "distinct ws" and "set ws \<subseteq> well_id ` set (rows tf)" and "D \<inter> set ws = {}"
    and "labelled_upto tf fp D preds"
  shows "\<exists>preds'. process_wells tf fp preds ws = Inr preds' \<and>
           labelled_upto tf fp (D \<union> set ws) preds'"
  using assms
proof (induction ws arbitrary: D preds)
  case Nil
  then show ?case by simp
next
  case (Cons w ws)
  from Cons.prems have w: "w \<in> well_id ` set (rows tf)" and wD: "w \<notin> D"
    and d: "distinct ws" and sub: "set ws \<subseteq> well_id ` set (rows tf)"
    and disj: "insert w D \<inter> set ws = {}"
    by auto
  from decode_well_returns [OF w] obtain combo where dec: "decode_well tf fp w = Inr combo"
    by blast
  from Cons.prems(4) wD dec
  have "labelled_upto tf fp (insert w D) (mark (group_indices (rows tf) w) combo preds)"
    by (rule mark_exact)
  from Cons.IH [OF d sub disj this] obtain preds' where
    "process_wells tf fp (mark (group_indices (rows tf) w) combo preds) ws = Inr preds'"
    and "labelled_upto tf fp (insert w D \<union> set ws) preds'" by blast
  with dec show ?case by simp
qed

lemma labelled_upto_zeros: "labelled_upto tf fp {} (replicate (length (rows tf)) 0)"
  by (simp add: labelled_upto_def)

lemma group_indices_distinct: "distinct (group_indices rs w)"
  by (simp add: group_indices_def)

lemma expected_label_written:
  assumes "decode_well tf fp w = Inr combo" and "kp = 1 \<or> kp = 2 \<or> kp = 3"
    and "combo kp = Some idx" and "idx < length (group_indices (rows tf) w)"
  shows "\<exists>k. kp \<le> k \<and> k \<le> 3 \<and> combo k = Some idx \<and>
           expected_label tf fp (group_indices (rows tf) w ! idx) = int k"
proof -
  let ?gi = "group_indices (rows tf) w"
  let ?g = "?gi ! idx"
  from assms(3,4) have hkp: "hits ?gi combo ?g kp" by (auto simp: hits_iff)
  then have "well_id (rows tf ! ?g) = w" by (simp add: hits_in_group)
  with assms(1) have wr: "writes tf fp ?g k = hits ?gi combo ?g k" for k
    by (simp add: writes_def)
  have same: "combo k = Some idx" if "hits ?gi combo ?g k" for k
  proof -
    from that obtain idx' where c: "combo k = Some idx'" and l: "idx' < length ?gi"
      and e: "?gi ! idx' = ?g" by (auto simp: hits_iff)
    from e l assms(4) have "idx' = idx"
      by (simp add: nth_eq_iff_index_eq [OF group_indices_distinct])
    with c show ?thesis by simp
  qed
  show ?thesis
  proof (cases "hits ?gi combo ?g 3")
    case True
    then have "expected_label tf fp ?g = int 3" by (simp add: expected_label_def wr)
    with same [OF True] assms(2) show ?thesis by (intro exI [of _ 3]) auto
  next
    case h3: False
    show ?thesis
    proof (cases "hits ?gi combo ?g 2")
      case True
      with h3 have "expected_label tf fp ?g = int 2" by (simp add: expected_label_def wr)
      moreover from h3 hkp assms(2) have "kp \<le> 2" by auto
      ultimately show ?thesis using same [OF True] by (intro exI [of _ 2]) auto
    next
      case h2: False
      from h3 h2 hkp assms(2) have k1: "kp = 1" by auto
      with hkp have h1: "hits ?gi combo ?g 1" by simp
      with h3 h2 have "expected_label tf fp ?g = int 1" by (simp add: expected_label_def wr)
      with k1 same [OF h1] show ?thesis by (intro exI [of _ 1]) auto
    qed
  qed
qed

text \<open>
  C9. \<open>advanced_post_process\<close> runs its loop over a list that holds every distinct
  well identifier exactly once. When every probability source has a weight and as many
  rows as there are samples (or a single row), it returns a label vector with one entry
  per sample in which the decode of every well is written: each position that the decode
  of a well selects carries the class that selected it (the highest such class, should
  two classes select the same position), at the global index of that position, and every
  entry not selected by the decode of its own well is 0.
\<close>

theorem advanced_post_process_labels:
  assumes "\<forall>(name, proba) \<in> set (tree_preds @ dl_preds).
      weights name \<noteq> None \<and> (length proba = length (rows test_features) \<or> length proba = 1)"
  shows "distinct (pd_unique (map well_id (rows test_features))) \<and>
         set (pd_unique (map well_id (rows test_features))) = well_id ` set (rows test_features) \<and>
         (\<exists>final_proba preds.
            fused_proba (length (rows test_features)) tree_preds dl_preds weights = Inr final_proba \<and>
            advanced_post_process test_features tree_preds dl_preds weights = Inr preds \<and>
            length preds = length (rows test_features) \<and>
            (\<forall>g < length (rows test_features).
               preds ! g \<noteq> 0 \<longrightarrow> selected test_features final_proba g (preds ! g)) \<and>
            (\<forall>g < length (rows test_features).
               preds ! g = expected_label test_features final_proba g) \<and>
            (\<forall>w kp idx combo.
               w \<in> well_id ` set (rows test_features) \<and> (kp = 1 \<or> kp = 2 \<or> kp = 3) \<and>
               decode_well test_features final_proba w = Inr combo \<and> combo kp = Some idx \<and>
               idx < length (group_indices (rows test_features) w) \<longrightarrow>
               (\<exists>k. kp \<le> k \<and> k \<le> 3 \<and> combo k = Some idx \<and>
                  preds ! (group_indices (rows test_features) w ! idx) = int k)))"
proof -
  let ?N = "length (rows test_features)"
  let ?ws = "pd_unique (map well_id (rows test_features))"
  have d: "distinct ?ws" by (rule pd_unique_distinct)
  have s: "set ?ws = well_id ` set (rows test_features)" by (simp add: pd_unique_set)
  from fused_proba_returns [OF assms] obtain fp
    where fp: "fused_proba ?N tree_preds dl_preds weights = Inr fp" by blast
  from s have sub: "set ?ws \<subseteq> well_id ` set (rows test_features)" by simp
  from process_wells_inv [OF sub labels_inv_zeros] obtain preds
    where p: "process_wells test_features fp (replicate ?N 0) ?ws = Inr preds"
      and inv: "labels_inv test_features fp preds" by blast
  have "{} \<inter> set ?ws = {}" by simp
  from process_wells_exact [OF d sub this labelled_upto_zeros, of fp] obtain preds'
    where "process_wells test_features fp (replicate ?N 0) ?ws = Inr preds'"
      and "labelled_upto test_features fp ({} \<union> set ?ws) preds'" by (elim exE conjE)
  with p have ex: "labelled_upto test_features fp (set ?ws) preds" by simp
  from p fp have app: "advanced_post_process test_features tree_preds dl_preds weights = Inr preds"
    by (simp add: advanced_post_process_def Let_def)
  from inv have len: "length preds = ?N"
    and sel: "\<forall>g < ?N. preds ! g \<noteq> 0 \<longrightarrow> selected test_features fp g (preds ! g)"
    by (simp_all add: labels_inv_def)
  have lab: "\<forall>g < ?N. preds ! g = expected_label test_features fp g"
  proof (intro allI impI)
    fix g assume g: "g < ?N"
    then have "well_id (rows test_features ! g) \<in> set ?ws" by (simp add: s)
    with ex g show "preds ! g = expected_label test_features fp g"
      by (simp add: labelled_upto_def)
  qed
  have wr: "\<forall>w kp idx combo.
      w \<in> well_id ` set (rows test_features) \<and> (kp = 1 \<or> kp = 2 \<or> kp = 3) \<and>
      decode_well test_features fp w = Inr combo \<and> combo kp = Some idx \<and>
      idx < length (group_indices (rows test_features) w) \<longrightarrow>
      (\<exists>k. kp \<le> k \<and> k \<le> 3 \<and> combo k = Some idx \<and>
         preds ! (group_indices (rows test_features) w ! idx) = int k)"
  proof (intro allI impI)
    fix w kp idx combo
    assume a: "w \<in> well_id ` set (rows test_features) \<and> (kp = 1 \<or> kp = 2 \<or> kp = 3) \<and>
      decode_well test_features fp w = Inr combo \<and> combo kp = Some idx \<and>
      idx < length (group_indices (rows test_features) w)"
    let ?g = "group_indices (rows test_features) w ! idx"
    from a have "?g \<in> set (group_indices (rows test_features) w)" by simp
    then have "?g < ?N" by (simp add: group_indices_iff)
    with lab have "preds ! ?g = expected_label test_features fp ?g" by simp
    moreover from a have "\<exists>k. kp \<le> k \<and> k \<le> 3 \<and> combo k = Some idx \<and>
        expected_label test_features fp ?g = int k"
      by (intro expected_label_written) simp_all
    ultimately show "\<exists>k. kp \<le> k \<and> k \<le> 3 \<and> combo k = Some idx \<and> preds ! ?g = int k"
      by simp
  qed
  show ?thesis
  proof (intro conjI)
    show "distinct ?ws" by (rule d)
    show "set ?ws = well_id ` set (rows test_features)" by (rule s)
    show "\<exists>final_proba preds.
      fused_proba ?N tree_preds dl_preds weights = Inr final_proba \<and>
      advanced_post_process test_features tree_preds dl_preds weights = Inr preds \<and>
      length preds = ?N \<and>
      (\<forall>g < ?N. preds ! g \<noteq> 0 \<longrightarrow> selected test_features final_proba g (preds ! g)) \<and>
      (\<forall>g < ?N. preds ! g = expected_label test_features final_proba g) \<and>
      (\<forall>w kp idx combo.
         w \<in> well_id ` set (rows test_features) \<and> (kp = 1 \<or> kp = 2 \<or> kp = 3) \<and>
         decode_well test_features final_proba w = Inr combo \<and> combo kp = Some idx \<and>
         idx < length (group_indices (rows test_features) w) \<longrightarrow>
         (\<exists>k. kp \<le> k \<and> k \<le> 3 \<and> combo k = Some idx \<and>
            preds ! (group_indices (rows test_features) w ! idx) = int k))"
    proof (intro exI conjI)
      show "fused_proba ?N tree_preds dl_preds weights = Inr fp" by (rule fp)
      show "advanced_post_process test_features tree_preds dl_preds weights = Inr preds"
        by (rule app)
      show "length preds = ?N" by (rule len)
      show "\<forall>g < ?N. preds ! g \<noteq> 0 \<longrightarrow> selected test_features fp g (preds ! g)" by (rule sel)
      show "\<forall>g < ?N. preds ! g = expected_label test_features fp g" by (rule lab)
      show "\<forall>w kp idx combo.
         w \<in> well_id ` set (rows test_features) \<and> (kp = 1 \<or> kp = 2 \<or> kp = 3) \<and>
         decode_well test_features fp w = Inr combo \<and> combo kp = Some idx \<and>
         idx < length (group_indices (rows test_features) w) \<longrightarrow>
         (\<exists>k. kp \<le> k \<and> k \<le> 3 \<and> combo k = Some idx \<and>
            preds ! (group_indices (rows test_features) w ! idx) = int k)"
        by (rule wr)
    qed
  qed
qed

theorem advanced_post_process_labels_witness:
  "advanced_post_process two_wells one_source [] unit_weights = Inr [1, 0, 0, 2] \<and>
   distinct (pd_unique (map well_id (rows two_wells))) \<and>
   (\<exists>final_proba preds.
      fused_proba (length (rows two_wells)) one_source [] unit_weights = Inr final_proba \<and>
      advanced_post_process two_wells one_source [] unit_weights = Inr preds \<and>
      length preds = length (rows two_wells) \<and>
      preds ! 0 = expected_label two_wells final_proba 0 \<and>
      preds ! 3 = expected_label two_wells final_proba 3)"
proof -
  have h: "\<forall>(name, proba) \<in> set (one_source @ []).
      unit_weights name \<noteq> None \<and> (length proba = length (rows two_wells) \<or> length proba = 1)"
    by (simp add: one_source_def unit_weights_def two_wells_def)
  have v: "advanced_post_process two_wells one_source [] unit_weights = Inr [1, 0, 0, 2]"
    by code_simp
  have n: "(0::nat) < length (rows two_wells)" "(3::nat) < length (rows two_wells)"
    by (simp_all add: two_wells_def)
  note t = advanced_post_process_labels [OF h]
  from t have d: "distinct (pd_unique (map well_id (rows two_wells)))" by (rule conjunct1)
  from t have "\<exists>final_proba preds.
      fused_proba (length (rows two_wells)) one_source [] unit_weights = Inr final_proba \<and>
      advanced_post_process two_wells one_source [] unit_weights = Inr preds \<and>
      length preds = length (rows two_wells) \<and>
      (\<forall>g < length (rows two_wells).
         preds ! g \<noteq> 0 \<longrightarrow> selected two_wells final_proba g (preds ! g)) \<and>
      (\<forall>g < length (rows two_wells). preds ! g = expected_label two_wells final_proba g) \<and>
      (\<forall>w kp idx combo.
         w \<in> well_id ` set (rows two_wells) \<and> (kp = 1 \<or> kp = 2 \<or> kp = 3) \<and>
         decode_well two_wells final_proba w = Inr combo \<and> combo kp = Some idx \<and>
         idx < length (group_indices (rows two_wells) w) \<longrightarrow>
         (\<exists>k. kp \<le> k \<and> k \<le> 3 \<and> combo k = Some idx \<and>
            preds ! (group_indices (rows two_wells) w ! idx) = int k))"
    by (rule conjunct2 [THEN conjunct2])
  then obtain fp preds where
    1: "fused_proba (length (rows two_wells)) one_source [] unit_weights = Inr fp"
    and 2: "advanced_post_process two_wells one_source [] unit_weights = Inr preds"
    and 3: "length preds = length (rows two_wells)"
    and 4: "\<forall>g < length (rows two_wells). preds ! g = expected_label two_wells fp g"
    by (elim exE conjE)
  from 4 n have 5: "preds ! 0 = expected_label two_wells fp 0"
    and 6: "preds ! 3 = expected_label two_wells fp 3" by simp_all
  have "\<exists>final_proba preds.
      fused_proba (length (rows two_wells)) one_source [] unit_weights = Inr final_proba \<and>
      advanced_post_process two_wells one_source [] unit_weights = Inr preds \<and>
      length preds = length (rows two_wells) \<and>
      preds ! 0 = expected_label two_wells final_proba 0 \<and>
      preds ! 3 = expected_label two_wells final_proba 3"
    using 1 2 3 5 6 by (intro exI conjI)
  with v d show ?thesis by (intro conjI)
qed

section \<open>The store and the tolerance loop\<close>

lemma same_except_refl: "same_except pa h h"
  by (simp add: same_except_def)

lemma same_except_trans:
  "same_except pa h h' \<Longrightarrow> same_except pa h' h'' \<Longrightarrow> same_except pa h h''"
  by (simp add: same_except_def)

lemma array_set_same_except: "same_except pa h (array_set h pa i v)"
  by (cases "pa < length h") (simp_all add: same_except_def array_set_def list_update_beyond)

lemma forgive_same_except:
  "same_except pa h (forgive tf tr tk pk pa h kp)"
  unfolding forgive_def Let_def
  by (auto split: option.splits
      intro: same_except_refl same_except_trans [OF array_set_same_except array_set_same_except])

lemma foldl_same_except:
  assumes "\<And>s x. same_except pa s (f s x)"
  shows "same_except pa h (foldl f h xs)"
proof (induction xs arbitrary: h)
  case Nil
  show ?case by (simp add: same_except_refl)
next
  case (Cons x xs)
  have "same_except pa h (f h x)" by (rule assms)
  moreover have "same_except pa (f h x) (foldl f (f h x) xs)" by (rule Cons.IH)
  ultimately show ?case by (simp add: same_except_trans)
qed

lemma well_step_same_except:
  assumes "well_step yt yp ids pa tf tr h w = Inr h'"
  shows "same_except pa h h'"
proof -
  from assms obtain tk pk where "h' = foldl (forgive tf tr tk pk pa) h [1, 2, 3]"
    unfolding well_step_def Let_def by (auto split: if_splits)
  then show ?thesis using foldl_same_except [of pa "forgive tf tr tk pk pa" h "[1, 2, 3]"]
    by (simp only: forgive_same_except)
qed

lemma well_step_returns:
  assumes "length (h ! yt) = length (h ! ids)" and "length (h ! yp) = length (h ! ids)"
  shows "\<exists>h'. well_step yt yp ids pa tf tr h w = Inr h'"
  using assms by (simp add: well_step_def Let_def)

lemma well_loop_same_except:
  assumes "well_loop yt yp ids pa tf tr h ws = Inr h'"
  shows "same_except pa h h'"
  using assms
proof (induction ws arbitrary: h)
  case Nil
  then show ?case by (simp add: same_except_refl)
next
  case (Cons w ws)
  then obtain h1 where 1: "well_step yt yp ids pa tf tr h w = Inr h1"
    and 2: "well_loop yt yp ids pa tf tr h1 ws = Inr h'"
    by (auto split: sum.splits)
  from 1 have "same_except pa h h1" by (rule well_step_same_except)
  moreover from 2 have "same_except pa h1 h'" by (rule Cons.IH)
  ultimately show ?case by (rule same_except_trans)
qed

lemma well_loop_returns:
  assumes "length (h ! yt) = length (h ! ids)" and "length (h ! yp) = length (h ! ids)"
    and "yt \<noteq> pa" and "yp \<noteq> pa" and "ids \<noteq> pa"
  shows "\<exists>h'. well_loop yt yp ids pa tf tr h ws = Inr h'"
  using assms(1,2)
proof (induction ws arbitrary: h)
  case Nil
  show ?case by simp
next
  case (Cons w ws)
  from well_step_returns [OF Cons.prems] obtain h1
    where 1: "well_step yt yp ids pa tf tr h w = Inr h1" by blast
  then have "same_except pa h h1" by (rule well_step_same_except)
  with assms(3,4,5) have "h1 ! yt = h ! yt" "h1 ! yp = h ! yp" "h1 ! ids = h ! ids"
    by (simp_all add: same_except_def)
  with Cons.prems have "length (h1 ! yt) = length (h1 ! ids)" "length (h1 ! yp) = length (h1 ! ids)"
    by simp_all
  from Cons.IH [OF this] 1 show ?case by simp
qed

lemma tolerance_adjust_frame:
  assumes "tolerance_adjust h yt yp ids tf tr = Inr r"
  shows "y_true_adjusted r = length h \<and> y_pred_adjusted r = length h + 1 \<and>
         same_except (length h + 1) (h @ [h ! yt, (h @ [h ! yt]) ! yp]) (final_store r)"
proof -
  let ?h2 = "h @ [h ! yt, (h @ [h ! yt]) ! yp]"
  from assms obtain h3 where
    loop: "well_loop yt yp ids (length h + 1) tf tr ?h2 (np_unique (?h2 ! ids)) = Inr h3"
    and r: "r = \<lparr>final_store = h3, y_true_adjusted = length h, y_pred_adjusted = length h + 1\<rparr>"
    unfolding tolerance_adjust_def np_copy_def by (auto split: sum.splits)
  from loop have "same_except (length h + 1) ?h2 h3" by (rule well_loop_same_except)
  with r show ?thesis by simp
qed

lemma tolerance_adjust_returns:
  assumes "yt < length h" and "yp < length h" and "ids < length h"
    and "length (h ! yt) = length (h ! ids)" and "length (h ! yp) = length (h ! ids)"
  shows "\<exists>r. tolerance_adjust h yt yp ids tf tr = Inr r"
proof -
  let ?h2 = "h @ [h ! yt, (h @ [h ! yt]) ! yp]"
  from assms have "length (?h2 ! yt) = length (?h2 ! ids)" "length (?h2 ! yp) = length (?h2 ! ids)"
    by (simp_all add: nth_append)
  moreover from assms have "yt \<noteq> length h + 1" "yp \<noteq> length h + 1" "ids \<noteq> length h + 1"
    by simp_all
  ultimately obtain h3 where
    "well_loop yt yp ids (length h + 1) tf tr ?h2 (np_unique (?h2 ! ids)) = Inr h3"
    using well_loop_returns by blast
  then show ?thesis by (simp add: tolerance_adjust_def np_copy_def)
qed


section \<open>The macro F1\<close>

lemma unique_labels_distinct: "distinct (unique_labels yt yp)"
  by (simp add: unique_labels_def)

lemma unique_labels_set: "set (unique_labels yt yp) = set yt \<union> set yp"
  by (simp add: unique_labels_def)

lemma f1_score_eq:
  assumes "length yt = length yp" and "yt \<noteq> []"
  shows "f1_score yt yp =
     Inr ((\<Sum>c \<in> set yt \<union> set yp. f1_class yt yp c) / real (card (set yt \<union> set yp)))"
proof -
  let ?L = "unique_labels yt yp"
  have "sum_list (map (f1_class yt yp) ?L) = (\<Sum>c \<in> set ?L. f1_class yt yp c)"
    by (rule sum_list_distinct_conv_sum_set [OF unique_labels_distinct])
  moreover have "length ?L = card (set ?L)"
    by (rule distinct_card [OF unique_labels_distinct, symmetric])
  ultimately show ?thesis
    using assms by (simp add: f1_score_def mean_def unique_labels_set)
qed

lemma count_pairs_zero:
  assumes "\<And>t p. (t, p) \<in> set (zip yt yp) \<Longrightarrow> \<not> P (t, p)"
  shows "count_pairs P yt yp = 0"
  using assms by (auto simp: count_pairs_def filter_empty_conv)

lemma f1_class_no_tp:
  assumes "count_pairs (\<lambda>(t, p). t = c \<and> p = c) yt yp = 0"
  shows "f1_class yt yp c = 0"
  using assms by (simp add: f1_class_def Let_def zero_division_def)

lemma f1_class_absent:
  assumes "c \<notin> set yt \<or> c \<notin> set yp"
  shows "f1_class yt yp c = 0"
proof (rule f1_class_no_tp, rule count_pairs_zero)
  fix t p
  assume "(t, p) \<in> set (zip yt yp)"
  then have "t \<in> set yt" and "p \<in> set yp" by (auto dest: set_zip_leftD set_zip_rightD)
  with assms show "\<not> (case (t, p) of (t, p) \<Rightarrow> t = c \<and> p = c)" by auto
qed

lemma count_pairs_same:
  "count_pairs P Y Y = length (filter (\<lambda>x. P (x, x)) Y)"
  by (simp add: count_pairs_def zip_same_conv_map filter_map comp_def)

lemma f1_class_exact:
  assumes "c \<in> set Y"
  shows "f1_class Y Y c = 1"
proof -
  from assms have "filter (\<lambda>x. x = c) Y \<noteq> []" by (simp add: filter_empty_conv)
  then have tp: "0 < length (filter (\<lambda>x. x = c) Y)" by simp
  have "count_pairs (\<lambda>(t, p). t = c \<and> p = c) Y Y = length (filter (\<lambda>x. x = c) Y)"
    by (simp add: count_pairs_same)
  moreover have "count_pairs (\<lambda>(t, p). t \<noteq> c \<and> p = c) Y Y = 0"
    by (simp add: count_pairs_same)
  moreover have "count_pairs (\<lambda>(t, p). t = c \<and> p \<noteq> c) Y Y = 0"
    by (simp add: count_pairs_same)
  ultimately show ?thesis using tp by (simp add: f1_class_def Let_def zero_division_def)
qed

lemma f1_score_exact:
  assumes "Y \<noteq> []"
  shows "f1_score Y Y = Inr 1"
proof -
  have "(\<Sum>c \<in> set Y \<union> set Y. f1_class Y Y c) = (\<Sum>c \<in> set Y. 1)"
    by (rule sum.cong) (simp_all add: f1_class_exact)
  moreover from assms have "card (set Y) \<noteq> 0" by simp
  ultimately show ?thesis using assms by (simp add: f1_score_eq)
qed

section \<open>Claims about the metric\<close>

lemma tolerance_adjust_arrays:
  assumes "yt < length h" and "yp < length h"
    and "tolerance_adjust h yt yp ids tf tr = Inr r"
  shows "(\<forall>a < length h. final_store r ! a = h ! a)"
    and "y_true_adjusted r = length h" and "y_pred_adjusted r = length h + 1"
    and "final_store r ! y_true_adjusted r = h ! yt"
    and "length (final_store r ! y_pred_adjusted r) = length (h ! yp)"
proof -
  let ?h2 = "h @ [h ! yt, (h @ [h ! yt]) ! yp]"
  from tolerance_adjust_frame [OF assms(3)]
  have ta: "y_true_adjusted r = length h" and pa: "y_pred_adjusted r = length h + 1"
    and se: "same_except (length h + 1) ?h2 (final_store r)" by simp_all
  show "y_true_adjusted r = length h" by (rule ta)
  show "y_pred_adjusted r = length h + 1" by (rule pa)
  from se show "\<forall>a < length h. final_store r ! a = h ! a"
    by (simp add: same_except_def nth_append)
  from se have "final_store r ! length h = ?h2 ! length h" by (simp add: same_except_def)
  then show "final_store r ! y_true_adjusted r = h ! yt" by (simp add: ta)
  from se have "length (final_store r ! (length h + 1)) = length (?h2 ! (length h + 1))"
    by (simp add: same_except_def)
  with assms(2) show "length (final_store r ! y_pred_adjusted r) = length (h ! yp)"
    by (simp add: pa nth_append)
qed

text \<open>
  C10. \<open>macro_f1_with_tolerance\<close> leaves every array of the store it was called with
  unchanged, in particular \<open>y_true\<close>, \<open>y_pred\<close> and \<open>well_ids\<close>, also when two of them
  are the same array: the two adjusted arrays are fresh copies, the edits go to the copy
  of the predictions only, and the truth array given to the F1 computation equals the
  input \<open>y_true\<close>. For inputs of equal length the function does return.
\<close>

theorem inputs_not_mutated:
  assumes "y_true < length h" and "y_pred < length h" and "well_ids < length h"
  shows "(\<forall>r. tolerance_adjust h y_true y_pred well_ids tolerance_first tolerance_rest = Inr r \<longrightarrow>
            (\<forall>a < length h. final_store r ! a = h ! a) \<and>
            length h \<le> y_true_adjusted r \<and> length h \<le> y_pred_adjusted r \<and>
            final_store r ! y_true_adjusted r = h ! y_true \<and>
            macro_f1_with_tolerance h y_true y_pred well_ids tolerance_first tolerance_rest
              = f1_score (h ! y_true) (final_store r ! y_pred_adjusted r)) \<and>
         (length (h ! y_true) = length (h ! well_ids) \<and>
          length (h ! y_pred) = length (h ! well_ids) \<longrightarrow>
            (\<exists>r. tolerance_adjust h y_true y_pred well_ids tolerance_first tolerance_rest = Inr r))"
proof (rule conjI)
  show "\<forall>r. tolerance_adjust h y_true y_pred well_ids tolerance_first tolerance_rest = Inr r \<longrightarrow>
      (\<forall>a < length h. final_store r ! a = h ! a) \<and>
      length h \<le> y_true_adjusted r \<and> length h \<le> y_pred_adjusted r \<and>
      final_store r ! y_true_adjusted r = h ! y_true \<and>
      macro_f1_with_tolerance h y_true y_pred well_ids tolerance_first tolerance_rest
        = f1_score (h ! y_true) (final_store r ! y_pred_adjusted r)"
  proof (intro allI impI)
    fix r
    assume r: "tolerance_adjust h y_true y_pred well_ids tolerance_first tolerance_rest = Inr r"
    note a = tolerance_adjust_arrays [OF assms(1,2) r]
    have "macro_f1_with_tolerance h y_true y_pred well_ids tolerance_first tolerance_rest
        = f1_score (h ! y_true) (final_store r ! y_pred_adjusted r)"
      using r a(4) by (simp add: macro_f1_with_tolerance_def)
    with a(1,2,3,4)
    show "(\<forall>a < length h. final_store r ! a = h ! a) \<and>
      length h \<le> y_true_adjusted r \<and> length h \<le> y_pred_adjusted r \<and>
      final_store r ! y_true_adjusted r = h ! y_true \<and>
      macro_f1_with_tolerance h y_true y_pred well_ids tolerance_first tolerance_rest
        = f1_score (h ! y_true) (final_store r ! y_pred_adjusted r)"
      by simp
  qed
  show "length (h ! y_true) = length (h ! well_ids) \<and>
      length (h ! y_pred) = length (h ! well_ids) \<longrightarrow>
      (\<exists>r. tolerance_adjust h y_true y_pred well_ids tolerance_first tolerance_rest = Inr r)"
    using assms by (simp add: tolerance_adjust_returns)
qed

theorem inputs_not_mutated_witness:
  "(0::nat) < length near_store \<and> (1::nat) < length near_store \<and> (2::nat) < length near_store \<and>
   adjusted_pred (tolerance_adjust near_store 0 1 2 1 2) = [0, 1, 0, 2] \<and>
   (\<exists>r. tolerance_adjust near_store 0 1 2 1 2 = Inr r \<and>
      final_store r ! 0 = near_store ! 0 \<and> final_store r ! 1 = near_store ! 1 \<and>
      final_store r ! 2 = near_store ! 2)"
proof -
  have h0: "(0::nat) < length near_store" and h1: "(1::nat) < length near_store"
    and h2: "(2::nat) < length near_store" by (simp_all add: near_store_def)
  have len: "length (near_store ! 0) = length (near_store ! 2) \<and>
      length (near_store ! 1) = length (near_store ! 2)" by (simp add: near_store_def)
  have v: "adjusted_pred (tolerance_adjust near_store 0 1 2 1 2) = [0, 1, 0, 2]" by code_simp
  from inputs_not_mutated [OF h0 h1 h2, of 1 2] len
  have "\<exists>r. tolerance_adjust near_store 0 1 2 1 2 = Inr r \<and>
      final_store r ! 0 = near_store ! 0 \<and> final_store r ! 1 = near_store ! 1 \<and>
      final_store r ! 2 = near_store ! 2"
    using h0 h1 h2 by blast
  with h0 h1 h2 v show ?thesis by (intro conjI)
qed

lemma first_kp_label:
  assumes "first_kp indices (map (\<lambda>i. Y ! i) indices) kp = Some p"
  shows "Y ! p = kp"
proof -
  let ?hits = "map fst (filter (\<lambda>(i, l). l = kp) (zip indices (map (\<lambda>i. Y ! i) indices)))"
  from assms obtain rest where "?hits = p # rest"
    by (auto simp: first_kp_def split: list.splits)
  then have "p \<in> set ?hits" by simp
  then obtain l where "(p, l) \<in> set (zip indices (map (\<lambda>i. Y ! i) indices))" and "l = kp"
    by auto
  then show ?thesis by (auto simp: zip_map2 zip_same_conv_map)
qed

lemma array_set_twice:
  assumes "pa < length h"
  shows "array_set (array_set h pa p v) pa p w = h[pa := (h ! pa)[p := w]]"
  using assms by (simp add: array_set_def)

lemma forgive_exact:
  assumes "pa < length h" and "\<And>p. tk kp = Some p \<Longrightarrow> (h ! pa) ! p = kp"
  shows "forgive tf tr tk tk pa h kp = h"
proof (cases "tk kp")
  case None
  then show ?thesis by (simp add: forgive_def)
next
  case (Some p)
  with assms(2) have "(h ! pa) ! p = kp" by simp
  then have "(h ! pa)[p := kp] = h ! pa" by (metis list_update_id)
  then have "array_set (array_set h pa p 0) pa p kp = h"
    by (simp add: array_set_twice [OF assms(1)])
  with Some show ?thesis by (simp add: forgive_def Let_def)
qed

lemma well_step_exact:
  assumes "pa < length h" and "h ! yt = h ! pa" and "h ! yp = h ! pa"
    and "length (h ! pa) = length (h ! ids)"
  shows "well_step yt yp ids pa tf tr h w = Inr h"
proof -
  let ?indices = "where_eq (h ! ids) w"
  let ?tk = "first_kp ?indices (map (\<lambda>i. (h ! pa) ! i) ?indices)"
  have f: "forgive tf tr ?tk ?tk pa h kp = h" for kp
    by (rule forgive_exact [OF assms(1)]) (rule first_kp_label)
  have "foldl (forgive tf tr ?tk ?tk pa) h [1, 2, 3] = h"
    by (simp add: f)
  with assms(2,3,4) show ?thesis by (simp add: well_step_def Let_def)
qed

lemma well_loop_exact:
  assumes "pa < length h" and "h ! yt = h ! pa" and "h ! yp = h ! pa"
    and "length (h ! pa) = length (h ! ids)"
  shows "well_loop yt yp ids pa tf tr h ws = Inr h"
  by (induction ws) (simp_all add: well_step_exact [OF assms])

lemma tolerance_adjust_exact:
  assumes "yt < length h" and "yp < length h" and "ids < length h"
    and "h ! yp = h ! yt" and "length (h ! ids) = length (h ! yt)"
  shows "tolerance_adjust h yt yp ids tf tr =
     Inr \<lparr>final_store = h @ [h ! yt, h ! yp], y_true_adjusted = length h,
          y_pred_adjusted = length h + 1\<rparr>"
proof -
  let ?h2 = "h @ [h ! yt, h ! yp]"
  have "well_loop yt yp ids (length h + 1) tf tr ?h2 ws = Inr ?h2" for ws
    by (rule well_loop_exact) (use assms in \<open>simp_all add: nth_append\<close>)
  with assms(2) show ?thesis
    by (simp add: tolerance_adjust_def np_copy_def nth_append)
qed

text \<open>
  C8. When the predicted array equals the true array, the tolerance adjustment changes
  nothing: both adjusted arrays equal the inputs. For such an input that is not empty, in
  particular one in which the three keypoint classes are placed, the score is 1.
\<close>

theorem exact_match_is_noop:
  assumes "y_true < length h" and "y_pred < length h" and "well_ids < length h"
    and "h ! y_pred = h ! y_true" and "length (h ! well_ids) = length (h ! y_true)"
    and "h ! y_true \<noteq> []"
  shows "adjusted_true (tolerance_adjust h y_true y_pred well_ids tolerance_first tolerance_rest)
           = h ! y_true \<and>
         adjusted_pred (tolerance_adjust h y_true y_pred well_ids tolerance_first tolerance_rest)
           = h ! y_pred \<and>
         macro_f1_with_tolerance h y_true y_pred well_ids tolerance_first tolerance_rest = Inr 1"
proof -
  note r = tolerance_adjust_exact [OF assms(1-5)]
  have "f1_score (h ! y_true) (h ! y_true) = Inr 1" using assms(6) by (rule f1_score_exact)
  moreover have "(h @ [h ! y_true, h ! y_pred]) ! (length h + 1) = h ! y_pred"
    by (simp add: nth_append)
  ultimately show ?thesis using assms(4)
    by (simp add: r adjusted_true_def adjusted_pred_def macro_f1_with_tolerance_def
        del: One_nat_def add_Suc_right)
qed

theorem exact_match_is_noop_witness:
  "(0::nat) < length placed_store \<and> (1::nat) < length placed_store \<and>
   (2::nat) < length placed_store \<and> placed_store ! 1 = placed_store ! 0 \<and>
   length (placed_store ! 2) = length (placed_store ! 0) \<and> placed_store ! 0 \<noteq> [] \<and>
   macro_f1_with_tolerance placed_store 0 1 2 1 2 = Inr 1"
proof -
  have h: "(0::nat) < length placed_store" "(1::nat) < length placed_store"
    "(2::nat) < length placed_store" "placed_store ! 1 = placed_store ! 0"
    "length (placed_store ! 2) = length (placed_store ! 0)" "placed_store ! 0 \<noteq> []"
    by (simp_all add: placed_store_def)
  from exact_match_is_noop [OF h, of 1 2]
  have "macro_f1_with_tolerance placed_store 0 1 2 1 2 = Inr 1" by blast
  with h show ?thesis by (intro conjI)
qed

lemma sum_four_classes:
  fixes f :: "int \<Rightarrow> real"
  assumes "L \<subseteq> {0, 1, 2, 3}" and "\<And>c. c \<notin> L \<Longrightarrow> f c = 0"
  shows "(\<Sum>c \<in> L. f c) = f 0 + f 1 + f 2 + f 3"
proof -
  have "(\<Sum>c \<in> L. f c) = (\<Sum>c \<in> {0, 1, 2, 3}. f c)"
    by (rule sum.mono_neutral_left) (use assms in auto)
  then show ?thesis by simp
qed

text \<open>
  C7 (amended). For non-empty inputs of equal length the function returns the
  macro-averaged F1 of the adjusted label vectors over the classes that occur in the true
  or in the adjusted predicted vector: each class's F1 is computed on its own, and a
  class without a true or without a predicted instance has the F1 0 instead of an error.
  A class that occurs in neither vector is not part of the average: when all labels are
  among 0 to 3, the value is the sum of the four per-class F1 divided by the number of
  classes that occur, not by 4.
\<close>

theorem macro_f1_over_occurring_classes:
  assumes "y_true < length h" and "y_pred < length h" and "well_ids < length h"
    and "length (h ! y_true) = length (h ! well_ids)"
    and "length (h ! y_pred) = length (h ! well_ids)"
    and "h ! y_true \<noteq> []"
  shows "\<exists>r T P s.
           tolerance_adjust h y_true y_pred well_ids tolerance_first tolerance_rest = Inr r \<and>
           T = final_store r ! y_true_adjusted r \<and> P = final_store r ! y_pred_adjusted r \<and>
           macro_f1_with_tolerance h y_true y_pred well_ids tolerance_first tolerance_rest = Inr s \<and>
           s = (\<Sum>c \<in> set T \<union> set P. f1_class T P c) / real (card (set T \<union> set P)) \<and>
           (\<forall>c. c \<notin> set T \<or> c \<notin> set P \<longrightarrow> f1_class T P c = 0) \<and>
           (set T \<union> set P \<subseteq> {0, 1, 2, 3} \<longrightarrow>
              s = (f1_class T P 0 + f1_class T P 1 + f1_class T P 2 + f1_class T P 3)
                    / real (card (set T \<union> set P)))"
proof -
  from tolerance_adjust_returns [OF assms(1-5)] obtain r
    where r: "tolerance_adjust h y_true y_pred well_ids tolerance_first tolerance_rest = Inr r"
    by blast
  let ?T = "final_store r ! y_true_adjusted r"
  let ?P = "final_store r ! y_pred_adjusted r"
  let ?s = "(\<Sum>c \<in> set ?T \<union> set ?P. f1_class ?T ?P c) / real (card (set ?T \<union> set ?P))"
  note a = tolerance_adjust_arrays [OF assms(1,2) r]
  from a(4,5) assms(4,5) have "length ?T = length ?P" by simp
  moreover from a(4) assms(6) have "?T \<noteq> []" by simp
  ultimately have "f1_score ?T ?P = Inr ?s" by (rule f1_score_eq)
  with r have m: "macro_f1_with_tolerance h y_true y_pred well_ids tolerance_first tolerance_rest
      = Inr ?s"
    by (simp add: macro_f1_with_tolerance_def)
  have z: "\<forall>c. c \<notin> set ?T \<or> c \<notin> set ?P \<longrightarrow> f1_class ?T ?P c = 0"
    by (simp add: f1_class_absent)
  have four: "set ?T \<union> set ?P \<subseteq> {0, 1, 2, 3} \<longrightarrow>
      ?s = (f1_class ?T ?P 0 + f1_class ?T ?P 1 + f1_class ?T ?P 2 + f1_class ?T ?P 3)
             / real (card (set ?T \<union> set ?P))"
  proof
    assume sub: "set ?T \<union> set ?P \<subseteq> {0, 1, 2, 3}"
    have "(\<Sum>c \<in> set ?T \<union> set ?P. f1_class ?T ?P c)
        = f1_class ?T ?P 0 + f1_class ?T ?P 1 + f1_class ?T ?P 2 + f1_class ?T ?P 3"
      using sub by (rule sum_four_classes) (simp add: f1_class_absent)
    then show "?s = (f1_class ?T ?P 0 + f1_class ?T ?P 1 + f1_class ?T ?P 2 + f1_class ?T ?P 3)
             / real (card (set ?T \<union> set ?P))"
      by (simp only:)
  qed
  from r m z four show ?thesis by blast
qed

theorem macro_f1_over_occurring_classes_witness:
  "(0::nat) < length miss_store \<and> (1::nat) < length miss_store \<and> (2::nat) < length miss_store \<and>
   length (miss_store ! 0) = length (miss_store ! 2) \<and>
   length (miss_store ! 1) = length (miss_store ! 2) \<and> miss_store ! 0 \<noteq> [] \<and>
   macro_f1_with_tolerance miss_store 0 1 2 1 2 = Inr (1 / 3) \<and>
   (\<exists>r s. tolerance_adjust miss_store 0 1 2 1 2 = Inr r \<and>
      macro_f1_with_tolerance miss_store 0 1 2 1 2 = Inr s)"
proof -
  have h: "(0::nat) < length miss_store" "(1::nat) < length miss_store"
    "(2::nat) < length miss_store" "length (miss_store ! 0) = length (miss_store ! 2)"
    "length (miss_store ! 1) = length (miss_store ! 2)" "miss_store ! 0 \<noteq> []"
    by (simp_all add: miss_store_def)
  have v: "macro_f1_with_tolerance miss_store 0 1 2 1 2 = Inr (1 / 3)" by code_simp
  from macro_f1_over_occurring_classes [OF h, of 1 2]
  have "\<exists>r s. tolerance_adjust miss_store 0 1 2 1 2 = Inr r \<and>
      macro_f1_with_tolerance miss_store 0 1 2 1 2 = Inr s"
    by blast
  with h v show ?thesis by (intro conjI)
qed

text \<open>
  C7 as stated fails when a class occurs in neither vector: for the exact match [0, 1]
  the function returns 1, the mean over the classes 0 and 1, while the average over the
  four classes 0 to 3 of the same adjusted vectors is 1/2.
\<close>

theorem macro_f1_four_classes_counterexample:
  "adjusted_true (tolerance_adjust exact_store 0 1 2 1 2) = [0, 1] \<and>
   adjusted_pred (tolerance_adjust exact_store 0 1 2 1 2) = [0, 1] \<and>
   macro_f1_with_tolerance exact_store 0 1 2 1 2 = Inr 1 \<and>
   spec_macro_f1_four_classes [0, 1] [0, 1] = 1 / 2"
  by code_simp

end
